theory Spec2Isabelle
  imports Main "HOL-Library.Sublist"
begin

section \<open>Python values and library functions used by the mediator\<close>

text \<open>
  The mediator (\<^verbatim>\<open>backend/browser.py\<close>, class \<^verbatim>\<open>BrowserManager\<close>) is Python. Strings are
  modelled as \<^typ>\<open>string\<close>; a Python \<^verbatim>\<open>dict\<close> is modelled as an association list in
  insertion order with distinct keys, because the code iterates over \<^verbatim>\<open>items()\<close> and relies
  on last-writer-wins assignment.

  Three functions of the Python standard library are not part of the repository and are
  taken as parameters, so that every theorem holds for whatever they compute:
  \<^item> \<^verbatim>\<open>re.sub(pattern, repl, string)\<close>: \<open>None\<close> when it raises;
  \<^item> \<^verbatim>\<open>json.loads(text)\<close>: \<open>None\<close> when it raises;
  \<^item> \<^verbatim>\<open>int(text)\<close>: \<open>None\<close> when it raises.
\<close>

datatype pyval =
    PNone
  | PBool bool
  | PNum int
  | PStr string
  | PList "pyval list"
  | PDict "(pyval \<times> pyval) list"

text \<open>
  \<open>pyval\<close> is the shape of a value decoded from JSON (and of a dict built from such values).
  A JSON number is represented by an integer: the code only tests numbers for truth, and a
  fractional number behaves there like a non-zero integer.
\<close>

record pylib =
  re_sub :: "string \<Rightarrow> string \<Rightarrow> string \<Rightarrow> string option"
  json_loads :: "string \<Rightarrow> pyval option"
  py_int :: "string \<Rightarrow> int option"

type_synonym headers = "(string \<times> string) list"

text \<open>\<^verbatim>\<open>d[k] = v\<close> on an insertion-ordered dict: an existing key keeps its position.\<close>

fun dict_set :: "('k \<times> 'v) list \<Rightarrow> 'k \<Rightarrow> 'v \<Rightarrow> ('k \<times> 'v) list" where
  "dict_set [] k v = [(k, v)]"
| "dict_set ((k', v') # d) k v = (if k' = k then (k, v) # d else (k', v') # dict_set d k v)"

definition keys :: "('k \<times> 'v) list \<Rightarrow> 'k list" where
  "keys d = map fst d"

text \<open>\<^verbatim>\<open>s.replace(old, new)\<close>: every non-overlapping occurrence, leftmost first; an empty
  \<^verbatim>\<open>old\<close> matches before every character and at the end.\<close>

function str_replace :: "string \<Rightarrow> string \<Rightarrow> string \<Rightarrow> string" where
  "str_replace [] old new = (if old = [] then new else [])"
| "str_replace (c # cs) old new =
     (if old = [] then new @ c # str_replace cs old new
      else if prefix old (c # cs) then new @ str_replace (drop (length old) (c # cs)) old new
      else c # str_replace cs old new)"
  by pat_completeness auto
termination
  by (relation "measure (\<lambda>(s, old, new). length s)") (auto simp: neq_Nil_conv)

text \<open>\<^verbatim>\<open>sep in s\<close> and \<^verbatim>\<open>s.split(sep, 1)\<close> for a non-empty separator: \<open>split_once\<close> is \<open>None\<close>
  when \<open>sep\<close> does not occur in \<open>s\<close>, and otherwise the text before and after its first
  occurrence.\<close>

fun split_once :: "string \<Rightarrow> string \<Rightarrow> (string \<times> string) option" where
  "split_once sep [] = None"
| "split_once sep (c # cs) =
     (if prefix sep (c # cs) then Some ([], drop (length sep) (c # cs))
      else (case split_once sep cs of
              None \<Rightarrow> None
            | Some (a, b) \<Rightarrow> Some (c # a, b)))"

text \<open>\<^verbatim>\<open>s.split(' ')\<close>: split at every single space; empty pieces are kept.\<close>

fun split_on :: "char \<Rightarrow> string \<Rightarrow> string list" where
  "split_on sep [] = [[]]"
| "split_on sep (c # cs) =
     (if c = sep then [] # split_on sep cs
      else (case split_on sep cs of
              [] \<Rightarrow> [[c]]
            | p # ps \<Rightarrow> (c # p) # ps))"

text \<open>\<^verbatim>\<open>str(n)\<close> of an integer, as the f-string \<^verbatim>\<open>f"HTTP/1.1 {data['status']}"\<close> formats it.\<close>

definition digit_char :: "nat \<Rightarrow> char" where
  "digit_char d = ''0123456789'' ! d"

function str_nat :: "nat \<Rightarrow> string" where
  "str_nat n = (if n < 10 then [digit_char n] else str_nat (n div 10) @ [digit_char (n mod 10)])"
  by pat_completeness auto
termination
  by (relation "measure id") auto

definition str_int :: "int \<Rightarrow> string" where
  "str_int i = (if i < 0 then CHR ''-'' # str_nat (nat (- i)) else str_nat (nat i))"

text \<open>\<^verbatim>\<open>k.lower()\<close> on header names, which are ASCII.\<close>

definition lower_char :: "char \<Rightarrow> char" where
  "lower_char c =
     (case map_of (zip ''ABCDEFGHIJKLMNOPQRSTUVWXYZ'' ''abcdefghijklmnopqrstuvwxyz'') c of
        Some l \<Rightarrow> l
      | None \<Rightarrow> c)"

definition lower :: "string \<Rightarrow> string" where
  "lower s = map lower_char s"

section \<open>Rule engine: \<^verbatim>\<open>_apply_match_replace\<close>\<close>

text \<open>\<^verbatim>\<open>MatchReplaceRule\<close> of \<^verbatim>\<open>project_manager.py\<close>.\<close>

record rule =
  enabled :: bool
  item :: string
  match :: string
  replace :: string
  isRegex :: bool
  comment :: string

text \<open>
  One rule against one piece of text, as every loop of \<^verbatim>\<open>_apply_match_replace\<close> does it:
  \<^verbatim>\<open>
  if rule.isRegex:
      try: line = re.sub(rule.match, rule.replace, line)
      except: pass
  else:
      line = line.replace(rule.match, rule.replace)
  \<close>
\<close>

definition apply_rule :: "pylib \<Rightarrow> rule \<Rightarrow> string \<Rightarrow> string" where
  "apply_rule L r s =
     (if isRegex r then
        (case re_sub L (match r) (replace r) s of
           Some s' \<Rightarrow> s'
         | None \<Rightarrow> s)
      else str_replace s (match r) (replace r))"

text \<open>The rule loop over a body or a virtual first line.\<close>

definition rewrite_text :: "pylib \<Rightarrow> rule list \<Rightarrow> string \<Rightarrow> string" where
  "rewrite_text L rules s = foldl (\<lambda>t r. apply_rule L r t) s rules"

text \<open>\<^verbatim>\<open>header_lines = [f"{k}: {v}" for k, v in headers.items()]\<close>\<close>

definition header_lines :: "headers \<Rightarrow> string list" where
  "header_lines hs = map (\<lambda>(k, v). k @ '': '' @ v) hs"

text \<open>The inner loop: the rule runs against each line; a line that became empty is not
  appended to \<^verbatim>\<open>new_lines\<close>.\<close>

definition rewrite_lines :: "pylib \<Rightarrow> rule \<Rightarrow> string list \<Rightarrow> string list" where
  "rewrite_lines L r ls = filter (\<lambda>l. l \<noteq> []) (map (apply_rule L r) ls)"

text \<open>
  Re-parsing one line into \<^verbatim>\<open>new_headers\<close>:
  \<^verbatim>\<open>
  if ': ' in line:
      k, v = line.split(': ', 1); new_headers[k] = v
  elif ':' in line:
      k, v = line.split(':', 1); new_headers[k] = v
  \<close>
\<close>

definition parse_line :: "headers \<Rightarrow> string \<Rightarrow> headers" where
  "parse_line new_headers line =
     (case split_once '': '' line of
        Some (k, v) \<Rightarrow> dict_set new_headers k v
      | None \<Rightarrow>
          (case split_once '':'' line of
             Some (k, v) \<Rightarrow> dict_set new_headers k v
           | None \<Rightarrow> new_headers))"

definition parse_lines :: "string list \<Rightarrow> headers" where
  "parse_lines ls = foldl parse_line [] ls"

text \<open>One iteration of the outer loop over the rules, and the loop.\<close>

definition header_step :: "pylib \<Rightarrow> rule \<Rightarrow> headers \<Rightarrow> headers" where
  "header_step L r hs = parse_lines (rewrite_lines L r (header_lines hs))"

definition rewrite_headers :: "pylib \<Rightarrow> rule list \<Rightarrow> headers \<Rightarrow> headers" where
  "rewrite_headers L rules hs = foldl (\<lambda>h r. header_step L r h) hs rules"

text \<open>The argument \<^verbatim>\<open>data\<close> and the result: a header dict, a body (\<^verbatim>\<open>None\<close> or a string),
  \<^verbatim>\<open>{"method", "url"}\<close> or \<^verbatim>\<open>{"status"}\<close>.\<close>

datatype mr_data =
    Headers headers
  | Body "string option"
  | RequestLine string string
  | ResponseLine int

datatype exn = TypeError | ValueError | AttributeError | KeyError | OtherError

text \<open>\<^verbatim>\<open>rules = [r for r in self.match_replace_rules if r.enabled and r.item == item_type]\<close>\<close>

definition rules_for :: "rule list \<Rightarrow> string \<Rightarrow> rule list" where
  "rules_for match_replace_rules item_type =
     filter (\<lambda>r. enabled r \<and> item r = item_type) match_replace_rules"

text \<open>Re-parsing the rewritten first lines.\<close>

definition parse_request_line :: "string \<Rightarrow> mr_data \<Rightarrow> mr_data" where
  "parse_request_line line data =
     (let parts = split_on CHR '' '' line in
      if length parts \<ge> 2 then RequestLine (parts ! 0) (parts ! 1) else data)"

definition parse_response_line :: "pylib \<Rightarrow> string \<Rightarrow> mr_data \<Rightarrow> mr_data" where
  "parse_response_line L line data =
     (let parts = split_on CHR '' '' line in
      if length parts \<ge> 2 then
        (case py_int L (parts ! 1) of
           Some n \<Rightarrow> ResponseLine n
         | None \<Rightarrow> data)
      else data)"

text \<open>
  \<^verbatim>\<open>_apply_match_replace(item_type, data)\<close>. The callers pass the shape of \<open>data\<close> that
  belongs to \<open>item_type\<close>; with another shape the Python raises (a missing attribute or key),
  which is the \<open>Inl\<close> result.
\<close>

definition apply_match_replace ::
  "pylib \<Rightarrow> rule list \<Rightarrow> string \<Rightarrow> mr_data \<Rightarrow> exn + mr_data" where
  "apply_match_replace L match_replace_rules item_type data =
     (let rules = rules_for match_replace_rules item_type in
      if rules = [] then Inr data
      else if item_type \<in> set [''Request header'', ''Response header''] then
        (case data of
           Headers hs \<Rightarrow> Inr (Headers (rewrite_headers L rules hs))
         | _ \<Rightarrow> Inl AttributeError)
      else if item_type \<in> set [''Request body'', ''Response body''] then
        (case data of
           Body None \<Rightarrow> Inr (Body None)
         | Body (Some b) \<Rightarrow> Inr (Body (Some (rewrite_text L rules b)))
         | _ \<Rightarrow> Inl AttributeError)
      else if item_type = ''Request first line'' then
        (case data of
           RequestLine m u \<Rightarrow>
             Inr (parse_request_line (rewrite_text L rules (m @ '' '' @ u @ '' HTTP/1.1'')) data)
         | _ \<Rightarrow> Inl KeyError)
      else if item_type = ''Response first line'' then
        (case data of
           ResponseLine st \<Rightarrow>
             Inr (parse_response_line L (rewrite_text L rules (''HTTP/1.1 '' @ str_int st)) data)
         | _ \<Rightarrow> Inl KeyError)
      else Inr data)"

section \<open>The rule engine on an explicit store\<close>

text \<open>
  To say that \<^verbatim>\<open>_apply_match_replace\<close> does not change the objects it is given, the
  function is modelled a second time with the objects in a store: a list of objects, the
  address of an object being its index. Creating an object (a list comprehension,
  \<^verbatim>\<open>data.copy()\<close>, \<^verbatim>\<open>[]\<close>, \<^verbatim>\<open>{}\<close>, \<^verbatim>\<open>split\<close>, a dict display) appends to the store;
  \<^verbatim>\<open>append\<close> and \<^verbatim>\<open>d[k] = v\<close> update the object at an address. Strings, numbers and
  \<^verbatim>\<open>None\<close> are immutable values and are held directly.
\<close>

datatype cell = VNone | VStr string | VRef nat

datatype obj =
    StrDict headers
  | RequestLineDict string string
  | ResponseLineDict int
  | StrList "string list"
  | RuleList "nat list"
  | RuleObj rule

type_synonym store = "obj list"

definition lookup :: "store \<Rightarrow> nat \<Rightarrow> obj option" where
  "lookup s a = (if a < length s then Some (s ! a) else None)"

definition alloc :: "store \<Rightarrow> obj \<Rightarrow> nat \<times> store" where
  "alloc s ob = (length s, s @ [ob])"

text \<open>\<^verbatim>\<open>xs.append(x)\<close> and \<^verbatim>\<open>d[k] = v\<close> on the object at address \<open>a\<close>.\<close>

definition list_append :: "store \<Rightarrow> nat \<Rightarrow> string \<Rightarrow> store" where
  "list_append s a x =
     (case lookup s a of Some (StrList xs) \<Rightarrow> s[a := StrList (xs @ [x])] | _ \<Rightarrow> s)"

definition dict_store :: "store \<Rightarrow> nat \<Rightarrow> string \<Rightarrow> string \<Rightarrow> store" where
  "dict_store s a k v =
     (case lookup s a of Some (StrDict d) \<Rightarrow> s[a := StrDict (dict_set d k v)] | _ \<Rightarrow> s)"

definition rule_at :: "store \<Rightarrow> nat \<Rightarrow> rule option" where
  "rule_at s a = (case lookup s a of Some (RuleObj r) \<Rightarrow> Some r | _ \<Rightarrow> None)"

text \<open>The list comprehension over \<^verbatim>\<open>self.match_replace_rules\<close> (the list object at
  \<open>rules_at\<close>): the addresses of the rule objects that are enabled and of the slice.\<close>

definition select_rules :: "store \<Rightarrow> nat \<Rightarrow> string \<Rightarrow> nat list option" where
  "select_rules s rules_at item_type =
     (case lookup s rules_at of
        Some (RuleList rs) \<Rightarrow>
          if list_all (\<lambda>a. rule_at s a \<noteq> None) rs then
            Some (filter (\<lambda>a. case rule_at s a of
                                Some r \<Rightarrow> enabled r \<and> item r = item_type
                              | None \<Rightarrow> False) rs)
          else None
      | _ \<Rightarrow> None)"

text \<open>The loop over a body or a first line; the rules are read from the store.\<close>

fun text_rules_at :: "pylib \<Rightarrow> store \<Rightarrow> nat list \<Rightarrow> string \<Rightarrow> string option" where
  "text_rules_at L s [] t = Some t"
| "text_rules_at L s (ra # rs) t =
     (case rule_at s ra of
        Some r \<Rightarrow> text_rules_at L s rs (apply_rule L r t)
      | None \<Rightarrow> None)"

text \<open>\<^verbatim>\<open>for line in header_lines: ... if new_line: new_lines.append(new_line)\<close>\<close>

fun append_lines :: "pylib \<Rightarrow> rule \<Rightarrow> nat \<Rightarrow> string list \<Rightarrow> store \<Rightarrow> store" where
  "append_lines L r new_lines [] s = s"
| "append_lines L r new_lines (line # ls) s =
     append_lines L r new_lines ls
       (let new_line = apply_rule L r line
        in if new_line \<noteq> [] then list_append s new_lines new_line else s)"

text \<open>\<^verbatim>\<open>for line in new_lines: ... new_headers[k] = v\<close>\<close>

fun store_lines :: "nat \<Rightarrow> string list \<Rightarrow> store \<Rightarrow> store" where
  "store_lines new_headers [] s = s"
| "store_lines new_headers (line # ls) s =
     store_lines new_headers ls
       (case split_once '': '' line of
          Some (k, v) \<Rightarrow> dict_store s new_headers k v
        | None \<Rightarrow>
            (case split_once '':'' line of
               Some (k, v) \<Rightarrow> dict_store s new_headers k v
             | None \<Rightarrow> s))"

text \<open>The loop over the rules of a header slice; \<open>headers_at\<close> is the local variable
  \<^verbatim>\<open>headers\<close>, rebound to the new dict at the end of every pass.\<close>

fun header_rules_at :: "pylib \<Rightarrow> nat list \<Rightarrow> nat \<Rightarrow> store \<Rightarrow> (exn + cell) \<times> store" where
  "header_rules_at L [] headers_at s = (Inr (VRef headers_at), s)"
| "header_rules_at L (ra # rs) headers_at s =
     (case (rule_at s ra, lookup s headers_at) of
        (Some r, Some (StrDict hs)) \<Rightarrow>
          (case alloc s (StrList (header_lines hs)) of (lines_at, s1) \<Rightarrow>
           case alloc s1 (StrList []) of (new_lines, s2) \<Rightarrow>
           case alloc (append_lines L r new_lines (header_lines hs) s2) (StrDict []) of
             (new_headers, s4) \<Rightarrow>
               header_rules_at L rs new_headers
                 (store_lines new_headers
                    (case lookup s4 new_lines of Some (StrList ls) \<Rightarrow> ls | _ \<Rightarrow> []) s4))
      | _ \<Rightarrow> (Inl AttributeError, s))"

definition apply_match_replace_at ::
  "pylib \<Rightarrow> nat \<Rightarrow> string \<Rightarrow> cell \<Rightarrow> store \<Rightarrow> (exn + cell) \<times> store" where
  "apply_match_replace_at L rules_at item_type data s =
     (case select_rules s rules_at item_type of
        None \<Rightarrow> (Inl AttributeError, s)
      | Some rules \<Rightarrow>
     (case alloc s (RuleList rules) of (rules_list, s1) \<Rightarrow>
      if rules = [] then (Inr data, s1)
      else if item_type \<in> set [''Request header'', ''Response header''] then
        (case data of
           VRef a \<Rightarrow>
             (case lookup s1 a of
                Some (StrDict hs) \<Rightarrow>
                  (case alloc s1 (StrDict hs) of (headers_at, s2) \<Rightarrow>
                     header_rules_at L rules headers_at s2)
              | _ \<Rightarrow> (Inl AttributeError, s1))
         | _ \<Rightarrow> (Inl AttributeError, s1))
      else if item_type \<in> set [''Request body'', ''Response body''] then
        (case data of
           VNone \<Rightarrow> (Inr VNone, s1)
         | VStr body \<Rightarrow>
             (case text_rules_at L s1 rules body of
                Some body' \<Rightarrow> (Inr (VStr body'), s1)
              | None \<Rightarrow> (Inl AttributeError, s1))
         | VRef a \<Rightarrow> (Inl AttributeError, s1))
      else if item_type = ''Request first line'' then
        (case data of
           VRef a \<Rightarrow>
             (case lookup s1 a of
                Some (RequestLineDict m u) \<Rightarrow>
                  (case text_rules_at L s1 rules (m @ '' '' @ u @ '' HTTP/1.1'') of
                     Some line \<Rightarrow>
                       (case alloc s1 (StrList (split_on CHR '' '' line)) of (parts_at, s2) \<Rightarrow>
                          if length (split_on CHR '' '' line) \<ge> 2 then
                            (case alloc s2 (RequestLineDict (split_on CHR '' '' line ! 0)
                                              (split_on CHR '' '' line ! 1)) of
                               (result_at, s3) \<Rightarrow> (Inr (VRef result_at), s3))
                          else (Inr data, s2))
                   | None \<Rightarrow> (Inl AttributeError, s1))
              | _ \<Rightarrow> (Inl KeyError, s1))
         | _ \<Rightarrow> (Inl TypeError, s1))
      else if item_type = ''Response first line'' then
        (case data of
           VRef a \<Rightarrow>
             (case lookup s1 a of
                Some (ResponseLineDict st) \<Rightarrow>
                  (case text_rules_at L s1 rules (''HTTP/1.1 '' @ str_int st) of
                     Some line \<Rightarrow>
                       (case alloc s1 (StrList (split_on CHR '' '' line)) of (parts_at, s2) \<Rightarrow>
                          if length (split_on CHR '' '' line) \<ge> 2 then
                            (case py_int L (split_on CHR '' '' line ! 1) of
                               Some n \<Rightarrow>
                                 (case alloc s2 (ResponseLineDict n) of
                                    (result_at, s3) \<Rightarrow> (Inr (VRef result_at), s3))
                             | None \<Rightarrow> (Inr data, s2))
                          else (Inr data, s2))
                   | None \<Rightarrow> (Inl AttributeError, s1))
              | _ \<Rightarrow> (Inl KeyError, s1))
         | _ \<Rightarrow> (Inl TypeError, s1))
      else (Inr data, s1)))"

section \<open>Browser-context replayer: the header partition of \<^verbatim>\<open>replay_request\<close>\<close>

definition forbidden :: "string list" where
  "forbidden =
     [''host'', ''connection'', ''keep-alive'', ''proxy-authenticate'', ''proxy-authorization'',
      ''te'', ''trailer'', ''transfer-encoding'', ''upgrade'', ''cookie'', ''user-agent'',
      ''referer'', ''origin'', ''content-length'', ''date'', ''expect'']"

text \<open>
  \<^verbatim>\<open>
  safe_headers = {k: v for k, v in headers.items()
                  if k.lower() not in forbidden and not k.lower().startswith("sec-")}
  safe_headers["X-WAF-Bypass-Repeater"] = "1"
  safe_headers["X-Antigravity-Override"] = headers_json
  \<close>
  \<open>headers\<close> is the stored header dict of the request to replay (its values come from the
  UI's JSON); \<open>headers_json\<close> is \<^verbatim>\<open>json.dumps(headers)\<close>.
\<close>

definition safe_headers :: "(string \<times> pyval) list \<Rightarrow> string \<Rightarrow> (string \<times> pyval) list" where
  "safe_headers hs headers_json =
     dict_set
       (dict_set
          (filter (\<lambda>(k, v). lower k \<notin> set forbidden \<and> \<not> prefix ''sec-'' (lower k)) hs)
          ''X-WAF-Bypass-Repeater'' (PStr ''1''))
       ''X-Antigravity-Override'' (PStr headers_json)"

section \<open>Python dicts holding decoded JSON\<close>

text \<open>Truth value of a Python object, as \<^verbatim>\<open>if x:\<close> tests it.\<close>

fun truthy :: "pyval \<Rightarrow> bool" where
  "truthy PNone = False"
| "truthy (PBool b) = b"
| "truthy (PNum n) = (n \<noteq> 0)"
| "truthy (PStr s) = (s \<noteq> [])"
| "truthy (PList xs) = (xs \<noteq> [])"
| "truthy (PDict d) = (d \<noteq> [])"

text \<open>Dict keys: lists and dicts are unhashable; \<^verbatim>\<open>True\<close> and \<^verbatim>\<open>1\<close> (and \<^verbatim>\<open>False\<close> and
  \<^verbatim>\<open>0\<close>) are the same key.\<close>

fun hashable :: "pyval \<Rightarrow> bool" where
  "hashable (PList xs) = False"
| "hashable (PDict d) = False"
| "hashable v = True"

fun key_norm :: "pyval \<Rightarrow> pyval" where
  "key_norm (PBool b) = PNum (if b then 1 else 0)"
| "key_norm v = v"

fun py_dict_set :: "(pyval \<times> pyval) list \<Rightarrow> pyval \<Rightarrow> pyval \<Rightarrow> (pyval \<times> pyval) list" where
  "py_dict_set [] k v = [(k, v)]"
| "py_dict_set ((k', v') # d) k v =
     (if key_norm k' = key_norm k then (k', v) # d else (k', v') # py_dict_set d k v)"

text \<open>
  One element of the sequence given to \<^verbatim>\<open>dict.update\<close>: it must itself be a sequence of
  length two (a two-character string, a two-element list, or a dict with two keys), whose
  first component is hashable.
\<close>

fun update_pair :: "pyval \<Rightarrow> exn + (pyval \<times> pyval)" where
  "update_pair (PStr s) =
     (case s of [a, b] \<Rightarrow> Inr (PStr [a], PStr [b]) | _ \<Rightarrow> Inl ValueError)"
| "update_pair (PList xs) =
     (case xs of
        [k, v] \<Rightarrow> if hashable k then Inr (k, v) else Inl TypeError
      | _ \<Rightarrow> Inl ValueError)"
| "update_pair (PDict d) =
     (case d of [(k1, v1), (k2, v2)] \<Rightarrow> Inr (k1, k2) | _ \<Rightarrow> Inl ValueError)"
| "update_pair v = Inl TypeError"

fun update_pairs :: "(pyval \<times> pyval) list \<Rightarrow> pyval list \<Rightarrow> exn + (pyval \<times> pyval) list" where
  "update_pairs d [] = Inr d"
| "update_pairs d (x # xs) =
     (case update_pair x of
        Inl e \<Rightarrow> Inl e
      | Inr (k, v) \<Rightarrow> update_pairs (py_dict_set d k v) xs)"

text \<open>\<^verbatim>\<open>d.update(other)\<close>: a dict is merged key by key; any other object is iterated as a
  sequence of pairs; a number, a bool or \<^verbatim>\<open>None\<close> is not iterable.\<close>

fun dict_update :: "(pyval \<times> pyval) list \<Rightarrow> pyval \<Rightarrow> exn + (pyval \<times> pyval) list" where
  "dict_update d (PDict other) = Inr (foldl (\<lambda>acc (k, v). py_dict_set acc k v) d other)"
| "dict_update d (PList xs) = update_pairs d xs"
| "dict_update d (PStr s) = update_pairs d (map (\<lambda>c. PStr [c]) s)"
| "dict_update d v = Inl TypeError"

text \<open>\<^verbatim>\<open>d.get(key, default)\<close> with a string key, on a dict.\<close>

definition dict_get :: "(pyval \<times> pyval) list \<Rightarrow> string \<Rightarrow> pyval \<Rightarrow> pyval" where
  "dict_get d key dflt = (case map_of d (PStr key) of Some v \<Rightarrow> v | None \<Rightarrow> dflt)"

definition py_headers :: "headers \<Rightarrow> (pyval \<times> pyval) list" where
  "py_headers hs = map (\<lambda>(k, v). (PStr k, PStr v)) hs"

definition py_body :: "string option \<Rightarrow> pyval" where
  "py_body b = (case b of None \<Rightarrow> PNone | Some s \<Rightarrow> PStr s)"

section \<open>Pending registry: \<^verbatim>\<open>pending_items\<close>, \<^verbatim>\<open>forward_item\<close>, \<^verbatim>\<open>drop_item\<close>\<close>

text \<open>The capture events \<^verbatim>\<open>req_data\<close> and \<^verbatim>\<open>res_data\<close> handed to \<^verbatim>\<open>on_request_captured\<close>.\<close>

record req_data =
  rq_id :: string
  rq_method :: string
  rq_url :: string
  rq_headers :: headers
  rq_body :: "string option"
  rq_resourceType :: string
  rq_timestamp :: int
  rq_pending :: bool

record res_data =
  rs_id :: string
  rs_req_id :: string
  rs_url :: string
  rs_status :: int
  rs_headers :: headers
  rs_body :: string
  rs_pending :: bool
  rs_timestamp :: int

datatype capture = ReqCapture req_data | ResCapture res_data

text \<open>
  An entry of \<^verbatim>\<open>pending_items\<close>; \<open>item_kind\<close> is its key \<^verbatim>\<open>"type"\<close>. The keys
  \<^verbatim>\<open>"route"\<close>, \<^verbatim>\<open>"request"\<close> and \<^verbatim>\<open>"response"\<close> hold
  handles of the browser and are left out; \<^verbatim>\<open>"event"\<close> is the \<^verbatim>\<open>asyncio.Event\<close>, modelled by
  whether it is set. \<^verbatim>\<open>"action"\<close> and \<^verbatim>\<open>"modified"\<close> are absent until a verdict stores them.
\<close>

record pending_item =
  item_kind :: string
  item_data :: capture
  item_action :: "string option"
  item_modified :: "pyval option"
  event_set :: bool

record manager =
  intercept_requests :: bool
  intercept_responses :: bool
  pending_items :: "(string \<times> pending_item) list"
  match_replace_rules :: "rule list"
  on_request_captured :: bool

text \<open>\<open>on_request_captured\<close> records whether the callback is set (\<^verbatim>\<open>if self.on_request_captured:\<close>).\<close>

definition forward_item :: "manager \<Rightarrow> string \<Rightarrow> pyval \<Rightarrow> bool \<times> manager" where
  "forward_item st item_id modified_data =
     (case map_of (pending_items st) item_id of
        Some it \<Rightarrow>
          (True,
           st\<lparr>pending_items :=
                dict_set (pending_items st) item_id
                  (it\<lparr>item_action := Some ''forward'',
                      item_modified :=
                        (if truthy modified_data then Some modified_data else item_modified it),
                      event_set := True\<rparr>)\<rparr>)
      | None \<Rightarrow> (False, st))"

definition drop_item :: "manager \<Rightarrow> string \<Rightarrow> bool \<times> manager" where
  "drop_item st item_id =
     (case map_of (pending_items st) item_id of
        Some it \<Rightarrow>
          (True,
           st\<lparr>pending_items :=
                dict_set (pending_items st) item_id
                  (it\<lparr>item_action := Some ''drop'', event_set := True\<rparr>)\<rparr>)
      | None \<Rightarrow> (False, st))"

text \<open>What the route handler does to the registry: it stores a new entry before it waits,
  and deletes the entry (\<^verbatim>\<open>del self.pending_items[req_id]\<close>) after it woke.\<close>

definition park :: "manager \<Rightarrow> string \<Rightarrow> string \<Rightarrow> capture \<Rightarrow> manager" where
  "park st item_id kind data =
     st\<lparr>pending_items :=
          dict_set (pending_items st) item_id
            \<lparr>item_kind = kind, item_data = data, item_action = None, item_modified = None,
             event_set = False\<rparr>\<rparr>"

definition unpark :: "manager \<Rightarrow> string \<Rightarrow> manager" where
  "unpark st item_id =
     st\<lparr>pending_items := filter (\<lambda>(k, it). k \<noteq> item_id) (pending_items st)\<rparr>"

text \<open>The commands of the UI that reach the manager (\<^verbatim>\<open>websocket_endpoint\<close> and
  \<^verbatim>\<open>get_project\<close>/\<^verbatim>\<open>save_project\<close> of \<^verbatim>\<open>main.py\<close>).\<close>

datatype ui_cmd =
    CmdForward string pyval
  | CmdDrop string
  | CmdInterceptRequests bool
  | CmdInterceptResponses bool
  | CmdRules "rule list"

fun run_cmd :: "manager \<Rightarrow> ui_cmd \<Rightarrow> manager" where
  "run_cmd st (CmdForward item_id modified) = snd (forward_item st item_id modified)"
| "run_cmd st (CmdDrop item_id) = snd (drop_item st item_id)"
| "run_cmd st (CmdInterceptRequests on) = st\<lparr>intercept_requests := on\<rparr>"
| "run_cmd st (CmdInterceptResponses on) = st\<lparr>intercept_responses := on\<rparr>"
| "run_cmd st (CmdRules rules) = st\<lparr>match_replace_rules := rules\<rparr>"

definition run_cmds :: "manager \<Rightarrow> ui_cmd list \<Rightarrow> manager" where
  "run_cmds st cmds = foldl run_cmd st cmds"

section \<open>Interception mediator: \<^verbatim>\<open>_route_handler\<close>\<close>

text \<open>The intercepted request (\<^verbatim>\<open>route.request\<close>) and the response of \<^verbatim>\<open>route.fetch\<close>. A
  call that can raise carries its exception as \<open>Inl\<close>. \<open>http_method\<close> is
  \<^verbatim>\<open>request.method\<close>.\<close>

record request =
  http_method :: string
  url :: string
  resource_type :: string
  all_headers :: "exn + headers"
  post_data :: "exn + string option"

record response =
  response_url :: string
  status :: int
  response_headers :: headers
  response_text :: "exn + string"

text \<open>
  Everything outside the handler that one run of it meets: the fresh ids and clock readings,
  whether the capture callback raises, what the browser answers to each routing call
  (\<open>Some e\<close>: the call raises \<open>e\<close>), and the commands of the UI that the manager handles
  while the handler is suspended: \<open>cmds_req\<close> between parking the request and waking,
  \<open>cmds_net\<close> while the request is fetched, \<open>cmds_res\<close> between parking the response and
  waking.
\<close>

record env =
  req_id :: string
  res_id :: string
  now_req :: int
  now_res :: int
  emit_req :: "exn option"
  emit_res :: "exn option"
  cmds_req :: "ui_cmd list"
  cmds_net :: "ui_cmd list"
  cmds_res :: "ui_cmd list"
  continue_r :: "exn option"
  fetch_r :: "exn + response"
  abort_r :: "exn option"
  fulfill_r :: "exn option"
  fallback_r :: "exn option"

text \<open>What the handler does to the outside, in order. \<open>Passthrough\<close> is \<^verbatim>\<open>route.continue_()\<close>
  without arguments: the browser sends its own request on unchanged.\<close>

datatype action =
    Emit capture
  | RouteContinue pyval string pyval pyval
  | RouteFetch pyval string pyval pyval
  | RouteFulfill pyval pyval pyval
  | RouteAbort
  | Passthrough

text \<open>How a part of the handler ends: an exception leaves the \<^verbatim>\<open>try\<close> block, the handler
  returns, the handler waits for an event that is not set, or it goes on with a value.\<close>

datatype 'a flow = Raise exn | Return | Suspended | Next 'a

datatype outcome = Done | Waiting

text \<open>Steps 1 and 2: the headers and the body of the request, and the three rewrites.\<close>

fun the_line :: "exn + mr_data \<Rightarrow> exn + string \<times> string" where
  "the_line (Inl e) = Inl e"
| "the_line (Inr (RequestLine m u)) = Inr (m, u)"
| "the_line (Inr d) = Inl KeyError"

fun the_status :: "exn + mr_data \<Rightarrow> exn + int" where
  "the_status (Inl e) = Inl e"
| "the_status (Inr (ResponseLine n)) = Inr n"
| "the_status (Inr d) = Inl KeyError"

fun the_headers :: "exn + mr_data \<Rightarrow> exn + headers" where
  "the_headers (Inl e) = Inl e"
| "the_headers (Inr (Headers hs)) = Inr hs"
| "the_headers (Inr d) = Inl TypeError"

fun the_body :: "exn + mr_data \<Rightarrow> exn + string option" where
  "the_body (Inl e) = Inl e"
| "the_body (Inr (Body b)) = Inr b"
| "the_body (Inr d) = Inl TypeError"

definition rewrite_request ::
  "pylib \<Rightarrow> manager \<Rightarrow> request \<Rightarrow> exn + string \<times> string \<times> headers \<times> string option" where
  "rewrite_request L st rq =
     (case all_headers rq of
        Inl e \<Rightarrow> Inl e
      | Inr hs \<Rightarrow>
     (case post_data rq of
        Inl e \<Rightarrow> Inl e
      | Inr pd \<Rightarrow>
     (case the_line (apply_match_replace L (match_replace_rules st) ''Request first line''
                       (RequestLine (http_method rq) (url rq))) of
        Inl e \<Rightarrow> Inl e
      | Inr (final_method, final_url) \<Rightarrow>
     (case the_headers (apply_match_replace L (match_replace_rules st) ''Request header''
                          (Headers hs)) of
        Inl e \<Rightarrow> Inl e
      | Inr final_headers \<Rightarrow>
     (case the_body (apply_match_replace L (match_replace_rules st) ''Request body''
                       (Body pd)) of
        Inl e \<Rightarrow> Inl e
      | Inr final_body \<Rightarrow> Inr (final_method, final_url, final_headers, final_body))))))"

text \<open>
  Step 3, the loop over the rewritten headers:
  \<^verbatim>\<open>
  for k, v in list(final_headers.items()):
      kl = k.lower()
      if kl == "x-waf-bypass-repeater":
          is_repeater_bypass = True
      elif kl == "x-antigravity-override":
          try: override_headers = json.loads(v)
          except: pass
  \<close>
\<close>

fun scan_channel :: "pylib \<Rightarrow> headers \<Rightarrow> bool \<times> pyval \<Rightarrow> bool \<times> pyval" where
  "scan_channel L [] acc = acc"
| "scan_channel L ((k, v) # hs) (is_repeater_bypass, override_headers) =
     (if lower k = ''x-waf-bypass-repeater'' then
        scan_channel L hs (True, override_headers)
      else if lower k = ''x-antigravity-override'' then
        scan_channel L hs
          (is_repeater_bypass,
           (case json_loads L v of Some j \<Rightarrow> j | None \<Rightarrow> override_headers))
      else scan_channel L hs (is_repeater_bypass, override_headers))"

definition internal_names :: "string list" where
  "internal_names = [''x-waf-bypass-repeater'', ''x-antigravity-override'']"

text \<open>
  \<^verbatim>\<open>
  if is_repeater_bypass or override_headers:
      final_headers = {k: v for k, v in final_headers.items()
                       if k.lower() not in ["x-waf-bypass-repeater", "x-antigravity-override"]}
      if override_headers:
          final_headers.update(override_headers)
  \<close>
\<close>

definition channel_headers :: "pylib \<Rightarrow> headers \<Rightarrow> exn + bool \<times> (pyval \<times> pyval) list" where
  "channel_headers L final_headers =
     (case scan_channel L final_headers (False, PDict []) of
        (is_repeater_bypass, override_headers) \<Rightarrow>
          if is_repeater_bypass \<or> truthy override_headers then
            (let stripped =
                   py_headers (filter (\<lambda>(k, v). lower k \<notin> set internal_names) final_headers)
             in if truthy override_headers then
                  (case dict_update stripped override_headers of
                     Inl e \<Rightarrow> Inl e
                   | Inr merged \<Rightarrow> Inr (is_repeater_bypass, merged))
                else Inr (is_repeater_bypass, stripped))
          else Inr (is_repeater_bypass, py_headers final_headers))"

text \<open>The capture callback: \<^verbatim>\<open>if self.on_request_captured: await self.on_request_captured(data)\<close>.\<close>

definition emit :: "manager \<Rightarrow> capture \<Rightarrow> action list \<Rightarrow> action list" where
  "emit st data tr = (if on_request_captured st then tr @ [Emit data] else tr)"

definition emit_raises :: "manager \<Rightarrow> exn option \<Rightarrow> exn option" where
  "emit_raises st r = (if on_request_captured st then r else None)"

text \<open>\<^verbatim>\<open>await event.wait()\<close>: the manager handles \<open>cmds\<close> meanwhile; \<open>None\<close> when the event of
  the parked entry is not set by them, so that the handler does not wake.\<close>

definition await_event :: "manager \<Rightarrow> ui_cmd list \<Rightarrow> string \<Rightarrow> manager option" where
  "await_event st cmds item_id =
     (let st' = run_cmds st cmds in
      case map_of (pending_items st') item_id of
        Some it \<Rightarrow> if event_set it then Some st' else None
      | None \<Rightarrow> None)"

text \<open>
  The part that the request half and the response half share: park the entry, emit the
  capture event, wait, and on waking either abort (\<^verbatim>\<open>"drop"\<close>) or read \<^verbatim>\<open>"modified"\<close>:
  \<^verbatim>\<open>
  item = self.pending_items.get(req_id)
  if item and item.get("action") == "drop":
      if req_id in self.pending_items: del self.pending_items[req_id]
      await route.abort()
      return
  modified = item.get("modified", {}) if item else {}
  \<close>
\<close>

definition park_and_wait ::
  "manager \<Rightarrow> string \<Rightarrow> string \<Rightarrow> capture \<Rightarrow> exn option \<Rightarrow> ui_cmd list \<Rightarrow> exn option \<Rightarrow>
   action list \<Rightarrow> pyval flow \<times> action list \<times> manager" where
  "park_and_wait st item_id kind data emit_r cmds abort_res tr =
     (let st1 = park st item_id kind data; tr1 = emit st data tr in
      case emit_raises st emit_r of
        Some e \<Rightarrow> (Raise e, tr1, st1)
      | None \<Rightarrow>
          (case await_event st1 cmds item_id of
             None \<Rightarrow> (Suspended, tr1, run_cmds st1 cmds)
           | Some st2 \<Rightarrow>
               (let found = map_of (pending_items st2) item_id in
                if (case found of Some it \<Rightarrow> item_action it = Some ''drop'' | None \<Rightarrow> False) then
                  ((case abort_res of Some e \<Rightarrow> Raise e | None \<Rightarrow> Return),
                   tr1 @ [RouteAbort], unpark st2 item_id)
                else
                  (Next (case found of
                           Some it \<Rightarrow> (case item_modified it of Some m \<Rightarrow> m | None \<Rightarrow> PDict [])
                         | None \<Rightarrow> PDict []),
                   tr1, st2))))"

text \<open>
  Step 4 for the request. After waking with a verdict other than drop:
  \<^verbatim>\<open>
  final_method = modified.get("method", final_method)
  final_headers = modified.get("headers", final_headers)
  final_body = modified.get("body", final_body)
  if req_id in self.pending_items: del self.pending_items[req_id]
  \<close>
  \<^verbatim>\<open>modified.get\<close> raises when \<^verbatim>\<open>modified\<close> is not a dict.
\<close>

definition capture_request ::
  "env \<Rightarrow> manager \<Rightarrow> req_data \<Rightarrow> bool \<Rightarrow> pyval \<Rightarrow> pyval \<Rightarrow> pyval \<Rightarrow>
   (pyval \<times> pyval \<times> pyval) flow \<times> action list \<times> manager" where
  "capture_request E st data is_repeater_bypass final_method final_headers final_body =
     (if intercept_requests st \<and> \<not> is_repeater_bypass then
        (case park_and_wait st (rq_id data) ''request'' (ReqCapture data) (emit_req E)
                (cmds_req E) (abort_r E) [] of
           (Next modified, tr, st2) \<Rightarrow>
             (case modified of
                PDict m \<Rightarrow>
                  (Next (dict_get m ''method'' final_method,
                         dict_get m ''headers'' final_headers,
                         dict_get m ''body'' final_body),
                   tr, unpark st2 (rq_id data))
              | _ \<Rightarrow> (Raise AttributeError, tr, st2))
         | (Raise e, tr, st2) \<Rightarrow> (Raise e, tr, st2)
         | (Return, tr, st2) \<Rightarrow> (Return, tr, st2)
         | (Suspended, tr, st2) \<Rightarrow> (Suspended, tr, st2))
      else
        (case emit_raises st (emit_req E) of
           Some e \<Rightarrow> (Raise e, emit st (ReqCapture data) [], st)
         | None \<Rightarrow>
             (Next (final_method, final_headers, final_body), emit st (ReqCapture data) [], st)))"

text \<open>
  Step 5 in bypass mode:
  \<^verbatim>\<open>
  try:
      continue_headers = {k: v for k, v in final_headers.items()
                          if k.lower() not in ["host", "content-length"]}
      await route.continue_(method=final_method, url=final_url,
                            headers=continue_headers, post_data=final_body)
  except Exception as e:
      await route.abort()
  return
  \<close>
  \<^verbatim>\<open>k.lower()\<close> raises on a key that is not a string.
\<close>

fun continue_headers :: "(pyval \<times> pyval) list \<Rightarrow> exn + (pyval \<times> pyval) list" where
  "continue_headers [] = Inr []"
| "continue_headers ((PStr k, v) # d) =
     (case continue_headers d of
        Inl e \<Rightarrow> Inl e
      | Inr d' \<Rightarrow>
          Inr (if lower k \<notin> set [''host'', ''content-length''] then (PStr k, v) # d' else d'))"
| "continue_headers ((k, v) # d) = Inl AttributeError"

definition abort_after :: "env \<Rightarrow> action list \<Rightarrow> 'a flow \<times> action list" where
  "abort_after E tr =
     ((case abort_r E of Some e \<Rightarrow> Raise e | None \<Rightarrow> Return), tr @ [RouteAbort])"

definition dispatch_bypass ::
  "env \<Rightarrow> pyval \<Rightarrow> string \<Rightarrow> pyval \<Rightarrow> pyval \<Rightarrow> action list \<Rightarrow> response flow \<times> action list" where
  "dispatch_bypass E final_method final_url final_headers final_body tr =
     (case (case final_headers of PDict d \<Rightarrow> continue_headers d | _ \<Rightarrow> Inl AttributeError) of
        Inl e \<Rightarrow> abort_after E tr
      | Inr hs \<Rightarrow>
          (let tr1 = tr @ [RouteContinue final_method final_url (PDict hs) final_body] in
           case continue_r E of
             Some e \<Rightarrow> abort_after E tr1
           | None \<Rightarrow> (Return, tr1)))"

text \<open>
  Step 5 in mediated mode:
  \<^verbatim>\<open>
  try:
      response = await route.fetch(method=final_method, url=final_url,
                                   headers=final_headers, post_data=final_body)
  except Exception as e:
      await route.abort()
      return
  \<close>
\<close>

definition dispatch_fetch ::
  "env \<Rightarrow> pyval \<Rightarrow> string \<Rightarrow> pyval \<Rightarrow> pyval \<Rightarrow> action list \<Rightarrow> response flow \<times> action list" where
  "dispatch_fetch E final_method final_url final_headers final_body tr =
     (let tr1 = tr @ [RouteFetch final_method final_url final_headers final_body] in
      case fetch_r E of
        Inl e \<Rightarrow> abort_after E tr1
      | Inr resp \<Rightarrow> (Next resp, tr1))"

text \<open>Step 6: the body as text or the marker, and the three rewrites of the response.\<close>

definition rewrite_response ::
  "pylib \<Rightarrow> manager \<Rightarrow> response \<Rightarrow> exn + int \<times> headers \<times> string" where
  "rewrite_response L st resp =
     (let res_body = (case response_text resp of Inl e \<Rightarrow> ''<binary data>'' | Inr t \<Rightarrow> t) in
      case the_status (apply_match_replace L (match_replace_rules st) ''Response first line''
                         (ResponseLine (status resp))) of
        Inl e \<Rightarrow> Inl e
      | Inr res_status \<Rightarrow>
     (case the_headers (apply_match_replace L (match_replace_rules st) ''Response header''
                          (Headers (response_headers resp))) of
        Inl e \<Rightarrow> Inl e
      | Inr res_headers \<Rightarrow>
     (case the_body (apply_match_replace L (match_replace_rules st) ''Response body''
                       (Body (Some res_body))) of
        Inl e \<Rightarrow> Inl e
      | Inr None \<Rightarrow> Inl TypeError
      | Inr (Some res_body') \<Rightarrow> Inr (res_status, res_headers, res_body'))))"

text \<open>Steps 7 and 8: capture or suspend the response, then \<^verbatim>\<open>route.fulfill\<close>.\<close>

definition deliver_response ::
  "env \<Rightarrow> manager \<Rightarrow> res_data \<Rightarrow> action list \<Rightarrow> unit flow \<times> action list \<times> manager" where
  "deliver_response E st data tr =
     (let res_status = PNum (rs_status data);
          res_headers = PDict (py_headers (rs_headers data));
          res_body = PStr (rs_body data);
          fulfill = (\<lambda>s h b tr' st'.
            ((case fulfill_r E of Some e \<Rightarrow> Raise e | None \<Rightarrow> Return),
             tr' @ [RouteFulfill s h b], st'))
      in
      if intercept_responses st then
        (case park_and_wait st (rs_id data) ''response'' (ResCapture data) (emit_res E)
                (cmds_res E) (abort_r E) tr of
           (Next modified, tr1, st2) \<Rightarrow>
             (case modified of
                PDict m \<Rightarrow>
                  fulfill (dict_get m ''status'' res_status) (dict_get m ''headers'' res_headers)
                    (dict_get m ''body'' res_body) tr1 (unpark st2 (rs_id data))
              | _ \<Rightarrow> (Raise AttributeError, tr1, st2))
         | (Raise e, tr1, st2) \<Rightarrow> (Raise e, tr1, st2)
         | (Return, tr1, st2) \<Rightarrow> (Return, tr1, st2)
         | (Suspended, tr1, st2) \<Rightarrow> (Suspended, tr1, st2))
      else
        (case emit_raises st (emit_res E) of
           Some e \<Rightarrow> (Raise e, emit st (ResCapture data) tr, st)
         | None \<Rightarrow> fulfill res_status res_headers res_body (emit st (ResCapture data) tr) st))"

definition response_half ::
  "pylib \<Rightarrow> env \<Rightarrow> manager \<Rightarrow> response \<Rightarrow> action list \<Rightarrow> unit flow \<times> action list \<times> manager" where
  "response_half L E st resp tr =
     (case rewrite_response L st resp of
        Inl e \<Rightarrow> (Raise e, tr, st)
      | Inr (res_status, res_headers, res_body) \<Rightarrow>
          deliver_response E st
            \<lparr>rs_id = res_id E, rs_req_id = req_id E, rs_url = response_url resp,
             rs_status = res_status, rs_headers = res_headers, rs_body = res_body,
             rs_pending = intercept_responses st, rs_timestamp = now_res E\<rparr> tr)"

text \<open>The body of the \<^verbatim>\<open>try\<close> block of \<^verbatim>\<open>_route_handler\<close>.\<close>

definition route_body ::
  "pylib \<Rightarrow> env \<Rightarrow> manager \<Rightarrow> request \<Rightarrow> unit flow \<times> action list \<times> manager" where
  "route_body L E st rq =
     (case rewrite_request L st rq of
        Inl e \<Rightarrow> (Raise e, [], st)
      | Inr (final_method, final_url, final_headers, final_body) \<Rightarrow>
     (let data = \<lparr>rq_id = req_id E, rq_method = final_method, rq_url = final_url,
                 rq_headers = final_headers, rq_body = final_body,
                 rq_resourceType = resource_type rq, rq_timestamp = now_req E,
                 rq_pending = intercept_requests st\<rparr>
      in
      case channel_headers L final_headers of
        Inl e \<Rightarrow> (Raise e, [], st)
      | Inr (is_repeater_bypass, merged) \<Rightarrow>
     (case capture_request E st data is_repeater_bypass (PStr final_method) (PDict merged)
             (py_body final_body) of
        (Raise e, tr, st1) \<Rightarrow> (Raise e, tr, st1)
      | (Return, tr, st1) \<Rightarrow> (Return, tr, st1)
      | (Suspended, tr, st1) \<Rightarrow> (Suspended, tr, st1)
      | (Next (m, h, b), tr, st1) \<Rightarrow>
          if is_repeater_bypass then
            (case dispatch_bypass E m final_url h b tr of
               (Raise e, tr1) \<Rightarrow> (Raise e, tr1, st1)
             | (_, tr1) \<Rightarrow> (Return, tr1, st1))
          else
            (case dispatch_fetch E m final_url h b tr of
               (Next resp, tr1) \<Rightarrow> response_half L E (run_cmds st1 (cmds_net E)) resp tr1
             | (Raise e, tr1) \<Rightarrow> (Raise e, tr1, st1)
             | (_, tr1) \<Rightarrow> (Return, tr1, st1)))))"

text \<open>
  \<^verbatim>\<open>_route_handler\<close>: the \<^verbatim>\<open>try\<close> block and its handler
  \<^verbatim>\<open>
  except Exception as e:
      logger.error(f"Error in route handler: {e}")
      try:
          await route.continue_() # Fallback
      except:
          pass
  \<close>
  The result is whether the handler came to its end, what it did, and the manager's state.
\<close>

definition route_handler ::
  "pylib \<Rightarrow> env \<Rightarrow> manager \<Rightarrow> request \<Rightarrow> outcome \<times> action list \<times> manager" where
  "route_handler L E st rq =
     (case route_body L E st rq of
        (Raise e, tr, st') \<Rightarrow>
          (case fallback_r E of
             Some e' \<Rightarrow> (Done, tr @ [Passthrough], st')
           | None \<Rightarrow> (Done, tr @ [Passthrough], st'))
      | (Suspended, tr, st') \<Rightarrow> (Waiting, tr, st')
      | (_, tr, st') \<Rightarrow> (Done, tr, st'))"

section \<open>Notions used to state the properties\<close>



text \<open>\<^verbatim>\<open>sep.join(parts)\<close>, to say what the pieces of \<open>split_on\<close> are.\<close>

fun join :: "char \<Rightarrow> string list \<Rightarrow> string" where
  "join sep [] = []"
| "join sep [t] = t"
| "join sep (t # ts) = t @ sep # join sep ts"

text \<open>
  The standard library on the inputs of the examples below, for evaluating them: the
  pattern \<^verbatim>\<open>(\<close> does not compile, so \<^verbatim>\<open>re.sub\<close> raises; \<^verbatim>\<open>User-Agent: .*\<close> matches from the
  first \<^verbatim>\<open>User-Agent: \<close> to the end of a line; \<^verbatim>\<open>json.loads\<close> raises on \<^verbatim>\<open>{\<close> and decodes
  the three texts listed as shown; \<^verbatim>\<open>int\<close> of a run of decimal digits is its value. On other
  inputs the three functions are not used in the examples, and what is written for them
  here says nothing about the library.
\<close>

definition digits_value :: "string \<Rightarrow> int option" where
  "digits_value s =
     (if s \<noteq> [] \<and> list_all (\<lambda>c. c \<in> set ''0123456789'') s then
        Some (foldl (\<lambda>n c. 10 * n + int (length (takeWhile (\<lambda>d. d \<noteq> c) ''0123456789''))) 0 s)
      else None)"

definition example_lib :: pylib where
  "example_lib =
     \<lparr>re_sub = (\<lambda>pattern repl s.
        if pattern = ''('' then None
        else if pattern = ''User-Agent: .*'' then
          (case split_once ''User-Agent: '' s of
             Some (a, b) \<Rightarrow> Some (a @ repl)
           | None \<Rightarrow> Some s)
        else Some s),
      json_loads = (\<lambda>s.
        if s = ''5'' then Some (PNum 5)
        else if s = ''{\"Host\": \"a.example\"}'' then
          Some (PDict [(PStr ''Host'', PStr ''a.example'')])
        else if s = ''{\"x-waf-bypass-repeater\": \"1\"}'' then
          Some (PDict [(PStr ''x-waf-bypass-repeater'', PStr ''1'')])
        else None),
      py_int = digits_value\<rparr>"

definition rule_of :: "string \<Rightarrow> string \<Rightarrow> string \<Rightarrow> bool \<Rightarrow> rule" where
  "rule_of slice m r re =
     \<lparr>enabled = True, item = slice, match = m, replace = r, isRegex = re, comment = []\<rparr>"

text \<open>A manager, a request, a response and an environment for the examples: no rule, no
  interception, the capture callback set, every call of the browser succeeding.\<close>

definition example_manager :: manager where
  "example_manager =
     \<lparr>intercept_requests = False, intercept_responses = False, pending_items = [],
      match_replace_rules = [], on_request_captured = True\<rparr>"


definition example_response :: response where
  "example_response =
     \<lparr>response_url = ''https://a.example/'', status = 200,
      response_headers = [(''content-type'', ''text/html'')], response_text = Inr ''ok''\<rparr>"

definition example_env :: env where
  "example_env =
     \<lparr>req_id = ''R'', res_id = ''S'', now_req = 0, now_res = 1,
      emit_req = None, emit_res = None, cmds_req = [], cmds_net = [], cmds_res = [],
      continue_r = None, fetch_r = Inr example_response, abort_r = None, fulfill_r = None,
      fallback_r = None\<rparr>"

definition example_request :: "headers \<Rightarrow> request" where
  "example_request hs =
     \<lparr>http_method = ''GET'', url = ''https://a.example/'', resource_type = ''document'',
      all_headers = Inr hs, post_data = Inr None\<rparr>"

definition forward_env :: env where
  "forward_env = example_env\<lparr>cmds_req :=
      [CmdForward ''R'' (PDict [(PStr ''method'', PStr ''POST''), (PStr ''body'', PStr ''hi'')])],
     cmds_res := [CmdForward ''S'' (PDict [(PStr ''status'', PNum 418)])]\<rparr>"

definition intercepting :: manager where
  "intercepting = example_manager\<lparr>intercept_requests := True, intercept_responses := True\<rparr>"








text \<open>Further examples: an environment in which the network calls fail, and the headers of
  a request sent by the replayer.\<close>

definition failing_env :: env where
  "failing_env = example_env\<lparr>fetch_r := Inl OtherError, continue_r := Some OtherError\<rparr>"


text \<open>
  How the store holds what the engine of the first model is given: \<open>repr s c d\<close> says that
  the argument \<open>c\<close> stands in the store \<open>s\<close> for the data \<open>d\<close>, and \<open>rules_in\<close> that the
  list object at an address holds the given rules.
\<close>

fun repr :: "store \<Rightarrow> cell \<Rightarrow> mr_data \<Rightarrow> bool" where
  "repr s (VRef a) (Headers hs) = (lookup s a = Some (StrDict hs))"
| "repr s (VRef a) (RequestLine m u) = (lookup s a = Some (RequestLineDict m u))"
| "repr s (VRef a) (ResponseLine n) = (lookup s a = Some (ResponseLineDict n))"
| "repr s VNone (Body b) = (b = None)"
| "repr s (VStr t) (Body b) = (b = Some t)"
| "repr s c d = False"

definition rules_in :: "store \<Rightarrow> nat \<Rightarrow> rule list \<Rightarrow> bool" where
  "rules_in s rules_at rules =
     (case lookup s rules_at of
        Some (RuleList ras) \<Rightarrow> map (rule_at s) ras = map Some rules
      | _ \<Rightarrow> False)"

text \<open>A store for the examples: a rule, the rule list and a header dict.\<close>

definition example_store :: store where
  "example_store =
     [RuleObj (rule_of ''Request header'' ''User-Agent: .*'' ''User-Agent: X'' True),
      RuleList [0],
      StrDict [(''Host'', ''a.example''), (''User-Agent'', ''Mozilla'')]]"

section \<open>Properties of the rule engine\<close>

subsection \<open>Splitting and joining\<close>

lemma split_on_nonempty: "split_on c s \<noteq> []"
  by (induction s) (auto split: list.splits)



lemma split_on_tokens: "t \<in> set (split_on c s) \<Longrightarrow> c \<notin> set t"
  by (induction s arbitrary: t) (auto split: list.splits if_splits)

lemma join_split_on: "join c (split_on c s) = s"
proof (induction s)
  case Nil
  then show ?case by simp
next
  case (Cons x xs)
  obtain p ps where sp: "split_on c xs = p # ps"
    using split_on_nonempty[of c xs] by (cases "split_on c xs") auto
  show ?case using Cons sp by (cases ps) auto
qed

lemma split_on_first: "split_on c s ! 0 = takeWhile (\<lambda>x. x \<noteq> c) s"
  by (induction s) (auto split: list.splits simp: split_on_nonempty)

lemma split_on_second:
  "c \<in> set s \<Longrightarrow>
   split_on c s ! 1 = takeWhile (\<lambda>x. x \<noteq> c) (tl (dropWhile (\<lambda>x. x \<noteq> c) s))"
proof (induction s)
  case Nil
  then show ?case by simp
next
  case (Cons x xs)
  show ?case
  proof (cases "x = c")
    case True
    then show ?thesis using split_on_first[of c xs] by simp
  next
    case False
    then show ?thesis using Cons split_on_nonempty[of c xs]
      by (cases "split_on c xs") auto
  qed
qed






subsection \<open>Dicts\<close>


lemma keys_dict_set: "set (keys (dict_set d k v)) = insert k (set (keys d))"
  by (induction d) (force simp: keys_def)+


subsection \<open>Re-parsing header lines\<close>














subsection \<open>A rule that raises\<close>








section \<open>Properties of the rule engine on the store\<close>

subsection \<open>Writes go to new objects only\<close>

lemma list_append_frame:
  "n \<le> a \<Longrightarrow> take n (list_append s a x) = take n s \<and> length (list_append s a x) = length s"
  by (auto simp: list_append_def split: option.splits obj.splits)

lemma dict_store_frame:
  "n \<le> a \<Longrightarrow> take n (dict_store s a k v) = take n s \<and> length (dict_store s a k v) = length s"
  by (auto simp: dict_store_def split: option.splits obj.splits)

lemma append_lines_frame:
  "n \<le> a \<Longrightarrow> take n (append_lines L r a ls s) = take n s \<and>
     length (append_lines L r a ls s) = length s"
  by (induction ls arbitrary: s) (auto simp: Let_def list_append_frame)

lemma store_lines_frame:
  "n \<le> a \<Longrightarrow> take n (store_lines a ls s) = take n s \<and> length (store_lines a ls s) = length s"
  by (induction ls arbitrary: s) (auto simp: dict_store_frame split: option.splits)

lemma header_rules_at_frame:
  "header_rules_at L rs ha s = (res, s') \<Longrightarrow> n \<le> length s \<Longrightarrow>
   take n s' = take n s \<and> length s \<le> length s'"
proof (induction rs arbitrary: ha s)
  case Nil
  then show ?case by simp
next
  case (Cons ra rs)
  show ?case
  proof (cases "rule_at s ra")
    case None
    then show ?thesis using Cons.prems by simp
  next
    case (Some r)
    show ?thesis
    proof (cases "lookup s ha")
      case None
      then show ?thesis using Cons.prems Some by simp
    next
      case (Some ob)
      note ob = Some
      show ?thesis
      proof (cases ob)
        case (StrDict hs)
        let ?s2 = "s @ [StrList (header_lines hs), StrList []]"
        let ?nl = "Suc (length s)"
        let ?s3 = "append_lines L r ?nl (header_lines hs) ?s2"
        let ?nh = "length ?s3"
        let ?s4 = "?s3 @ [StrDict []]"
        let ?s5 = "store_lines ?nh (case lookup ?s4 ?nl of Some (StrList ls) \<Rightarrow> ls | _ \<Rightarrow> []) ?s4"
        have l3: "length ?s3 = length s + 2" and t3: "take n ?s3 = take n ?s2"
          using append_lines_frame[of n ?nl L r "header_lines hs" ?s2] Cons.prems(2) by auto
        have l5: "length ?s5 = length ?s4" and t5: "take n ?s5 = take n ?s4"
          using store_lines_frame[of n ?nh] Cons.prems(2) l3 by auto
        have rec: "header_rules_at L rs ?nh ?s5 = (res, s')"
          using Cons.prems(1) \<open>rule_at s ra = Some r\<close> ob StrDict by (simp add: alloc_def)
        have "n \<le> length ?s5" using l5 l3 Cons.prems(2) by simp
        from Cons.IH[OF rec this] have "take n s' = take n ?s5" "length ?s5 \<le> length s'" by auto
        then show ?thesis using t5 t3 l5 l3 Cons.prems(2) by simp
      qed (use Cons.prems \<open>rule_at s ra = Some r\<close> ob in auto)
    qed
  qed
qed

lemma header_rules_at_result:
  "header_rules_at L rs ha s = (Inr (VRef a), s') \<Longrightarrow> a = ha \<or> length s \<le> a"
proof (induction rs arbitrary: ha s)
  case Nil
  then show ?case by simp
next
  case (Cons ra rs)
  show ?case
  proof (cases "rule_at s ra")
    case None
    then show ?thesis using Cons.prems by simp
  next
    case (Some r)
    show ?thesis
    proof (cases "lookup s ha")
      case None
      then show ?thesis using Cons.prems Some by simp
    next
      case (Some ob)
      note ob = Some
      show ?thesis
      proof (cases ob)
        case (StrDict hs)
        let ?s2 = "s @ [StrList (header_lines hs), StrList []]"
        let ?nl = "Suc (length s)"
        let ?s3 = "append_lines L r ?nl (header_lines hs) ?s2"
        let ?nh = "length ?s3"
        let ?s4 = "?s3 @ [StrDict []]"
        let ?s5 = "store_lines ?nh (case lookup ?s4 ?nl of Some (StrList ls) \<Rightarrow> ls | _ \<Rightarrow> []) ?s4"
        have l3: "length ?s3 = length s + 2"
          using append_lines_frame[of 0 ?nl L r "header_lines hs" ?s2] by auto
        have l5: "length ?s5 = length ?s4"
          using store_lines_frame[of 0 ?nh] by auto
        have rec: "header_rules_at L rs ?nh ?s5 = (Inr (VRef a), s')"
          using Cons.prems(1) \<open>rule_at s ra = Some r\<close> ob StrDict by (simp add: alloc_def)
        from Cons.IH[OF rec] show ?thesis using l3 l5 by auto
      qed (use Cons.prems \<open>rule_at s ra = Some r\<close> ob in auto)
    qed
  qed
qed

subsection \<open>The store model computes what the first model computes\<close>

lemma lookup_take:
  "take n s' = take n s \<Longrightarrow> n \<le> length s \<Longrightarrow> n \<le> length s' \<Longrightarrow> a < n \<Longrightarrow>
   lookup s' a = lookup s a"
  by (metis lookup_def nth_take order_less_le_trans)

lemma lookup_append: "a < length s \<Longrightarrow> lookup (s @ xs) a = lookup s a"
  by (simp add: lookup_def nth_append)

lemma lookup_fresh: "lookup (s @ [ob]) (length s) = Some ob"
  by (simp add: lookup_def)

lemma lookup_Some_less: "lookup s a = Some ob \<Longrightarrow> a < length s"
  by (simp add: lookup_def split: if_splits)

lemma rule_at_Some_less: "rule_at s a = Some r \<Longrightarrow> a < length s"
  by (auto simp: rule_at_def dest: lookup_Some_less split: option.splits)

lemma rules_less: "map (rule_at s) ras = map Some rs \<Longrightarrow> list_all (\<lambda>a. a < length s) ras"
proof (induction ras arbitrary: rs)
  case Nil
  then show ?case by simp
next
  case (Cons a ras)
  then show ?case by (cases rs) (auto dest: rule_at_Some_less)
qed

lemma rules_preserved:
  assumes "map (rule_at s) ras = map Some rs"
    and "take (length s) s' = s" and "length s \<le> length s'"
  shows "map (rule_at s') ras = map Some rs"
proof -
  have "\<And>a. a < length s \<Longrightarrow> rule_at s' a = rule_at s a"
    using lookup_take[of "length s" s' s] assms(2,3) by (simp add: rule_at_def)
  then have "map (rule_at s') ras = map (rule_at s) ras"
    using rules_less[OF assms(1)] by (simp add: list_all_iff)
  then show ?thesis using assms(1) by simp
qed

lemma text_rules_at_refines:
  "map (rule_at s) ras = map Some rs \<Longrightarrow> text_rules_at L s ras t = Some (rewrite_text L rs t)"
proof (induction ras arbitrary: rs t)
  case Nil
  then show ?case by (simp add: rewrite_text_def)
next
  case (Cons a ras)
  then obtain r rs' where rs: "rs = r # rs'" "rule_at s a = Some r"
      "map (rule_at s) ras = map Some rs'"
    by (cases rs) auto
  then show ?case using Cons.IH[OF rs(3)] by (simp add: rewrite_text_def)
qed

lemma list_append_content:
  "lookup s a = Some (StrList xs) \<Longrightarrow> lookup (list_append s a x) a = Some (StrList (xs @ [x]))"
  by (auto simp: list_append_def lookup_def split: if_splits)

lemma dict_store_content:
  "lookup s a = Some (StrDict d) \<Longrightarrow>
   lookup (dict_store s a k v) a = Some (StrDict (dict_set d k v))"
  by (auto simp: dict_store_def lookup_def split: if_splits)

lemma append_lines_content:
  "lookup s a = Some (StrList xs) \<Longrightarrow>
   lookup (append_lines L r a ls s) a = Some (StrList (xs @ rewrite_lines L r ls))"
proof (induction ls arbitrary: s xs)
  case Nil
  then show ?case by (simp add: rewrite_lines_def)
next
  case (Cons l ls)
  show ?case
  proof (cases "apply_rule L r l = []")
    case True
    then show ?thesis using Cons by (simp add: rewrite_lines_def)
  next
    case False
    have "lookup (list_append s a (apply_rule L r l)) a = Some (StrList (xs @ [apply_rule L r l]))"
      using Cons.prems by (rule list_append_content)
    from Cons.IH[OF this] show ?thesis using False by (simp add: rewrite_lines_def)
  qed
qed

lemma store_lines_content:
  "lookup s a = Some (StrDict d) \<Longrightarrow>
   lookup (store_lines a ls s) a = Some (StrDict (foldl parse_line d ls))"
proof (induction ls arbitrary: s d)
  case Nil
  then show ?case by simp
next
  case (Cons l ls)
  let ?s' = "(case split_once '': '' l of
          Some (k, v) \<Rightarrow> dict_store s a k v
        | None \<Rightarrow>
            (case split_once '':'' l of
               Some (k, v) \<Rightarrow> dict_store s a k v
             | None \<Rightarrow> s))"
  have "lookup ?s' a = Some (StrDict (parse_line d l))"
    using Cons.prems by (auto simp: parse_line_def dict_store_content split: option.splits)
  from Cons.IH[OF this] show ?case by simp
qed

lemma header_rules_at_refines:
  assumes "map (rule_at s) ras = map Some rs" and "lookup s ha = Some (StrDict hs)"
  shows "\<exists>a s'. header_rules_at L ras ha s = (Inr (VRef a), s') \<and>
           lookup s' a = Some (StrDict (rewrite_headers L rs hs))"
  using assms
proof (induction ras arbitrary: rs ha hs s)
  case Nil
  then show ?case by (simp add: rewrite_headers_def)
next
  case (Cons ra ras)
  then obtain r rs' where rs: "rs = r # rs'" "rule_at s ra = Some r"
      "map (rule_at s) ras = map Some rs'"
    by (cases rs) auto
  let ?s2 = "s @ [StrList (header_lines hs), StrList []]"
  let ?nl = "Suc (length s)"
  let ?s3 = "append_lines L r ?nl (header_lines hs) ?s2"
  let ?nh = "length ?s3"
  let ?s4 = "?s3 @ [StrDict []]"
  let ?new = "rewrite_lines L r (header_lines hs)"
  let ?s5 = "store_lines ?nh ?new ?s4"
  have l3: "length ?s3 = length s + 2" and t3: "take (length s) ?s3 = take (length s) ?s2"
    using append_lines_frame[of "length s" ?nl L r "header_lines hs" ?s2] by auto
  have "lookup ?s2 ?nl = Some (StrList [])" by (simp add: lookup_def nth_append)
  then have c3: "lookup ?s3 ?nl = Some (StrList ([] @ ?new))"
    by (rule append_lines_content)
  then have c4: "lookup ?s4 ?nl = Some (StrList ?new)"
    using l3 by (simp add: lookup_append)
  have l5: "length ?s5 = length ?s4" and t5: "take (length s) ?s5 = take (length s) ?s4"
    using store_lines_frame[of "length s" ?nh ?new ?s4] l3 by auto
  have "lookup ?s4 ?nh = Some (StrDict [])" by (rule lookup_fresh)
  then have c5: "lookup ?s5 ?nh = Some (StrDict (foldl parse_line [] ?new))"
    by (rule store_lines_content)
  then have c5': "lookup ?s5 ?nh = Some (StrDict (header_step L r hs))"
    by (simp add: header_step_def parse_lines_def)
  have ext: "take (length s) ?s5 = s" "length s \<le> length ?s5"
    using t5 t3 l5 l3 by auto
  have rules': "map (rule_at ?s5) ras = map Some rs'"
    using rules_preserved[OF rs(3) ext] .
  have unfold: "header_rules_at L (ra # ras) ha s = header_rules_at L ras ?nh ?s5"
    using rs(2) Cons.prems(2) c4 by (simp add: alloc_def)
  obtain a s' where "header_rules_at L ras ?nh ?s5 = (Inr (VRef a), s')"
      "lookup s' a = Some (StrDict (rewrite_headers L rs' (header_step L r hs)))"
    using Cons.IH[OF rules' c5'] by blast
  then show ?case using unfold rs(1) by (simp add: rewrite_headers_def)
qed

lemma select_rules_refines:
  assumes "rules_in s rules_at rules"
  shows "\<exists>ras. select_rules s rules_at item_type = Some ras \<and>
           map (rule_at s) ras = map Some (rules_for rules item_type)"
proof -
  obtain all where l: "lookup s rules_at = Some (RuleList all)"
      and m: "map (rule_at s) all = map Some rules"
    using assms by (auto simp: rules_in_def split: option.splits obj.splits)
  have ok: "list_all (\<lambda>a. rule_at s a \<noteq> None) all"
    using m
  proof (induction all arbitrary: rules)
    case Nil
    then show ?case by simp
  next
    case (Cons a all)
    then show ?case by (cases rules) auto
  qed
  have "map (rule_at s)
          (filter (\<lambda>a. case rule_at s a of Some r \<Rightarrow> enabled r \<and> item r = item_type
                        | None \<Rightarrow> False) all) =
        map Some (filter (\<lambda>r. enabled r \<and> item r = item_type) rules)"
    using m
  proof (induction all arbitrary: rules)
    case Nil
    then show ?case by simp
  next
    case (Cons a all)
    then show ?case by (cases rules) auto
  qed
  then show ?thesis using l ok by (simp add: select_rules_def rules_for_def)
qed


theorem store_model_refines:
  assumes "rules_in s rules_at rules" and "repr s data d"
    and "apply_match_replace L rules item_type d = Inr d'"
  shows "\<exists>c s'. apply_match_replace_at L rules_at item_type data s = (Inr c, s') \<and> repr s' c d'"
proof -
  obtain ras where sel: "select_rules s rules_at item_type = Some ras"
      and m: "map (rule_at s) ras = map Some (rules_for rules item_type)"
    using select_rules_refines[OF assms(1)] by blast
  let ?rs = "rules_for rules item_type"
  let ?s1 = "s @ [RuleList ras]"
  have e: "ras = [] \<longleftrightarrow> ?rs = []" using m by (metis map_is_Nil_conv)
  have m1: "map (rule_at ?s1) ras = map Some ?rs"
    using rules_preserved[OF m, of ?s1] by simp
  have keep: "\<And>a ob. lookup s a = Some ob \<Longrightarrow> lookup ?s1 a = Some ob"
    using lookup_append lookup_Some_less by metis
  have repr1: "repr ?s1 data d"
    using assms(2) keep by (cases "(s, data, d)" rule: repr.cases) auto
  show ?thesis
  proof (cases "?rs = []")
    case True
    then show ?thesis using sel e assms(3) repr1
      by (simp add: apply_match_replace_at_def apply_match_replace_def alloc_def)
  next
    case False
    note ne = False
    consider (hdr) "item_type \<in> set [''Request header'', ''Response header'']"
      | (body) "item_type \<in> set [''Request body'', ''Response body'']"
      | (reqline) "item_type = ''Request first line''"
      | (resline) "item_type = ''Response first line''"
      | (none) "item_type \<notin> set [''Request header'', ''Response header'']"
          "item_type \<notin> set [''Request body'', ''Response body'']"
          "item_type \<noteq> ''Request first line''" "item_type \<noteq> ''Response first line''"
      by blast
    then show ?thesis
    proof cases
      case hdr
      then obtain hs where d: "d = Headers hs" "d' = Headers (rewrite_headers L ?rs hs)"
        using assms(3) ne by (cases d) (auto simp: apply_match_replace_def Let_def)
      then obtain a where a: "data = VRef a" "lookup ?s1 a = Some (StrDict hs)"
        using repr1 by (cases data) auto
      let ?s2 = "?s1 @ [StrDict hs]"
      have m2: "map (rule_at ?s2) ras = map Some ?rs"
        using rules_preserved[OF m1, of ?s2] by simp
      have "lookup ?s2 (length ?s1) = Some (StrDict hs)" by (rule lookup_fresh)
      from header_rules_at_refines[OF m2 this, of L]
      obtain b s' where "header_rules_at L ras (length ?s1) ?s2 = (Inr (VRef b), s')"
          "lookup s' b = Some (StrDict (rewrite_headers L ?rs hs))"
        by blast
      then show ?thesis using sel e ne hdr a d
        by (simp add: apply_match_replace_at_def alloc_def)
    next
      case body
      then consider (rq) "item_type = ''Request body''" | (rs) "item_type = ''Response body''"
        by auto
      then show ?thesis
      proof cases
        case rq
        have it: "item_type = ''Request body''" by fact
        show ?thesis
        proof (cases d)
          case (Body b)
          show ?thesis
          proof (cases b)
            case None
            then have "data = VNone" using repr1 Body by (cases data) auto
            moreover have "d' = Body None"
              using assms(3) ne it Body None by (simp add: apply_match_replace_def Let_def)
            ultimately show ?thesis using sel e ne it
              by (simp add: apply_match_replace_at_def alloc_def)
          next
            case (Some t)
            then have "data = VStr t" using repr1 Body by (cases data) auto
            moreover have "d' = Body (Some (rewrite_text L ?rs t))"
              using assms(3) ne it Body Some by (simp add: apply_match_replace_def Let_def)
            ultimately show ?thesis using sel e ne it text_rules_at_refines[OF m1, of L t]
              by (simp add: apply_match_replace_at_def alloc_def)
          qed
        qed (use assms(3) ne it in \<open>simp_all add: apply_match_replace_def Let_def\<close>)
      next
        case rs
        have it: "item_type = ''Response body''" by fact
        show ?thesis
        proof (cases d)
          case (Body b)
          show ?thesis
          proof (cases b)
            case None
            then have "data = VNone" using repr1 Body by (cases data) auto
            moreover have "d' = Body None"
              using assms(3) ne it Body None by (simp add: apply_match_replace_def Let_def)
            ultimately show ?thesis using sel e ne it
              by (simp add: apply_match_replace_at_def alloc_def)
          next
            case (Some t)
            then have "data = VStr t" using repr1 Body by (cases data) auto
            moreover have "d' = Body (Some (rewrite_text L ?rs t))"
              using assms(3) ne it Body Some by (simp add: apply_match_replace_def Let_def)
            ultimately show ?thesis using sel e ne it text_rules_at_refines[OF m1, of L t]
              by (simp add: apply_match_replace_at_def alloc_def)
          qed
        qed (use assms(3) ne it in \<open>simp_all add: apply_match_replace_def Let_def\<close>)
      qed
    next
      case reqline
      then obtain mth u where d: "d = RequestLine mth u"
        using assms(3) ne by (cases d) (auto simp: apply_match_replace_def Let_def)
      then obtain a where a: "data = VRef a" "lookup ?s1 a = Some (RequestLineDict mth u)"
        using repr1 by (cases data) auto
      let ?line = "rewrite_text L ?rs (mth @ '' '' @ u @ '' HTTP/1.1'')"
      have t: "text_rules_at L ?s1 ras (mth @ '' '' @ u @ '' HTTP/1.1'') = Some ?line"
        using text_rules_at_refines[OF m1] .
      have keep2: "lookup (?s1 @ [StrList (split_on CHR '' '' ?line)]) a =
                   Some (RequestLineDict mth u)"
        using a(2) lookup_append lookup_Some_less by metis
      let ?parts = "split_on CHR '' '' ?line"
      have nh: "item_type \<notin> set [''Request header'', ''Response header'']"
        and nb: "item_type \<notin> set [''Request body'', ''Response body'']"
        using reqline by simp_all
      have pure: "d' = (if 2 \<le> length ?parts then RequestLine (?parts ! 0) (?parts ! 1) else d)"
        using assms(3) ne reqline d
        by (auto simp: apply_match_replace_def parse_request_line_def Let_def)
      have run: "apply_match_replace_at L rules_at item_type data s =
          (if 2 \<le> length ?parts
           then (Inr (VRef (length s + 2)),
                 ?s1 @ [StrList ?parts, RequestLineDict (?parts ! 0) (?parts ! 1)])
           else (Inr data, ?s1 @ [StrList ?parts]))"
        unfolding apply_match_replace_at_def
        using sel e ne nh nb reqline a t by (simp add: alloc_def)
      show ?thesis
      proof (cases "2 \<le> length ?parts")
        case True
        then show ?thesis using pure run by (simp add: lookup_def nth_append)
      next
        case False
        then show ?thesis using pure run d a keep2 by simp
      qed
    next
      case resline
      then obtain n where d: "d = ResponseLine n"
        using assms(3) ne by (cases d) (auto simp: apply_match_replace_def Let_def)
      then obtain a where a: "data = VRef a" "lookup ?s1 a = Some (ResponseLineDict n)"
        using repr1 by (cases data) auto
      let ?line = "rewrite_text L ?rs (''HTTP/1.1 '' @ str_int n)"
      have t: "text_rules_at L ?s1 ras (''HTTP/1.1 '' @ str_int n) = Some ?line"
        using text_rules_at_refines[OF m1] .
      have keep2: "lookup (?s1 @ [StrList (split_on CHR '' '' ?line)]) a =
                   Some (ResponseLineDict n)"
        using a(2) lookup_append lookup_Some_less by metis
      let ?parts = "split_on CHR '' '' ?line"
      show ?thesis
      proof (cases "2 \<le> length ?parts")
        case False
        have "d' = d"
          using assms(3) ne resline d False
          by (simp add: apply_match_replace_def parse_response_line_def Let_def)
        moreover have "apply_match_replace_at L rules_at item_type data s =
            (Inr data, ?s1 @ [StrList ?parts])"
          unfolding apply_match_replace_at_def
          using sel e ne resline a t False by (simp add: alloc_def)
        ultimately show ?thesis using d a keep2 by simp
      next
        case True
        show ?thesis
        proof (cases "py_int L (?parts ! 1)")
          case None
          have "d' = d"
            using assms(3) ne resline d True None
            by (simp add: apply_match_replace_def parse_response_line_def Let_def)
          moreover have "apply_match_replace_at L rules_at item_type data s =
              (Inr data, ?s1 @ [StrList ?parts])"
            unfolding apply_match_replace_at_def
            using sel e ne resline a t True None by (simp add: alloc_def)
          ultimately show ?thesis using d a keep2 by simp
        next
          case (Some k)
          have "d' = ResponseLine k"
            using assms(3) ne resline d True Some
            by (simp add: apply_match_replace_def parse_response_line_def Let_def)
          moreover have "apply_match_replace_at L rules_at item_type data s =
              (Inr (VRef (length s + 2)), ?s1 @ [StrList ?parts, ResponseLineDict k])"
            unfolding apply_match_replace_at_def
            using sel e ne resline a t True Some by (simp add: alloc_def)
          ultimately show ?thesis by (simp add: lookup_def nth_append)
        qed
      qed
    next
      case none
      have "d' = d" using none ne assms(3) by (simp add: apply_match_replace_def Let_def)
      moreover have "apply_match_replace_at L rules_at item_type data s = (Inr data, ?s1)"
        using none sel e ne by (simp add: apply_match_replace_at_def alloc_def)
      ultimately show ?thesis using repr1 by simp
    qed
  qed
qed

subsection \<open>Claims about the rule engine\<close>







subsection \<open>Claim about the engine's effect on its arguments\<close>

text \<open>
  C10. Whatever \<^verbatim>\<open>_apply_match_replace\<close> is called with, the store after the call begins
  with the store before it: every object that existed before the call (the header dict or
  first-line dict passed in, the rule list, the rules) is unchanged, and a dict that is
  returned is either the argument itself or an object created during the call. A body is a
  string or \<^verbatim>\<open>None\<close>, which cannot be changed.
\<close>

theorem inputs_unchanged:
  assumes "apply_match_replace_at L rules_at item_type data s = (res, s')"
  shows "prefix s s' \<and> (\<forall>a. res = Inr (VRef a) \<longrightarrow> data = VRef a \<or> length s \<le> a)"
proof -
  have fr: "take (length s) s' = s \<and> length s \<le> length s' \<and>
      (\<forall>a. res = Inr (VRef a) \<longrightarrow> data = VRef a \<or> length s \<le> a)"
  proof (cases "select_rules s rules_at item_type")
    case None
    then show ?thesis using assms by (auto simp: apply_match_replace_at_def)
  next
    case (Some rules)
    let ?s1 = "s @ [RuleList rules]"
    show ?thesis
    proof (cases "rules = []")
      case True
      then show ?thesis using assms Some by (auto simp: apply_match_replace_at_def alloc_def)
    next
      case False
      consider (hdr) "item_type \<in> set [''Request header'', ''Response header'']"
        | (other) "item_type \<notin> set [''Request header'', ''Response header'']"
        by blast
      then show ?thesis
      proof cases
        case hdr
        show ?thesis
        proof (cases "\<exists>a hs. data = VRef a \<and> lookup ?s1 a = Some (StrDict hs)")
          case True
          then obtain a hs where d: "data = VRef a" "lookup ?s1 a = Some (StrDict hs)" by blast
          have run: "header_rules_at L rules (length ?s1) (?s1 @ [StrDict hs]) = (res, s')"
            using assms Some False hdr d by (simp add: apply_match_replace_at_def alloc_def)
          have "take (length s) s' = take (length s) (?s1 @ [StrDict hs]) \<and>
                length (?s1 @ [StrDict hs]) \<le> length s'"
            using header_rules_at_frame[OF run, of "length s"] by simp
          moreover have "\<forall>b. res = Inr (VRef b) \<longrightarrow> length s \<le> b"
            using header_rules_at_result[of L rules "length ?s1" "?s1 @ [StrDict hs]" _ s'] run
            by auto
          ultimately show ?thesis by auto
        next
          case False
          then show ?thesis using assms Some \<open>rules \<noteq> []\<close> hdr
            by (auto simp: apply_match_replace_at_def alloc_def
                split: cell.splits option.splits obj.splits)
        qed
      next
        case other
        consider (body) "item_type \<in> set [''Request body'', ''Response body'']"
          | (reqline) "item_type = ''Request first line''"
          | (resline) "item_type = ''Response first line''"
          | (none) "item_type \<notin> set [''Request body'', ''Response body'']"
              "item_type \<noteq> ''Request first line''" "item_type \<noteq> ''Response first line''"
          by blast
        then show ?thesis
        proof cases
          case body
          have "s' = ?s1"
            using assms Some False body
            by (cases data) (auto simp: apply_match_replace_at_def alloc_def split: option.splits)
          moreover have "\<forall>a. res = Inr (VRef a) \<longrightarrow> data = VRef a"
            using assms Some False body
            by (cases data) (auto simp: apply_match_replace_at_def alloc_def split: option.splits)
          ultimately show ?thesis by simp
        next
          case reqline
          show ?thesis
          proof (cases data)
            case (VRef a)
            show ?thesis
            proof (cases "lookup ?s1 a")
              case None
              then show ?thesis using assms Some False reqline VRef
                by (auto simp: apply_match_replace_at_def alloc_def)
            next
              case (Some ob)
              then show ?thesis using assms \<open>select_rules s rules_at item_type = Some rules\<close>
                  False reqline VRef
                by (cases ob; cases "text_rules_at L ?s1 rules (case ob of RequestLineDict m u \<Rightarrow> m @ '' '' @ u @ '' HTTP/1.1'' | _ \<Rightarrow> [])")
                  (auto simp: apply_match_replace_at_def alloc_def split: if_splits)
            qed
          qed (use assms Some False reqline in \<open>auto simp: apply_match_replace_at_def alloc_def\<close>)
        next
          case resline
          show ?thesis
          proof (cases data)
            case (VRef a)
            show ?thesis
            proof (cases "lookup ?s1 a")
              case None
              then show ?thesis using assms Some False resline VRef
                by (auto simp: apply_match_replace_at_def alloc_def)
            next
              case (Some ob)
              then show ?thesis using assms \<open>select_rules s rules_at item_type = Some rules\<close>
                  False resline VRef
                by (cases ob; cases "text_rules_at L ?s1 rules (case ob of ResponseLineDict st \<Rightarrow> ''HTTP/1.1 '' @ str_int st | _ \<Rightarrow> [])")
                  (auto simp: apply_match_replace_at_def alloc_def split: if_splits option.splits)
            qed
          qed (use assms Some False resline in \<open>auto simp: apply_match_replace_at_def alloc_def\<close>)
        next
          case none
          then show ?thesis using assms Some False other
            by (auto simp: apply_match_replace_at_def alloc_def)
        qed
      qed
    qed
  qed
  then have "s' = s @ drop (length s) s'"
    by (metis append_take_drop_id)
  then have "prefix s s'" by (metis prefixI)
  then show ?thesis using fr by blast
qed

theorem inputs_unchanged_witness:
  "apply_match_replace_at example_lib 1 ''Request header'' (VRef 2) example_store =
     (Inr (VRef 7),
      example_store @
      [RuleList [0],
       StrDict [(''Host'', ''a.example''), (''User-Agent'', ''Mozilla'')],
       StrList [''Host: a.example'', ''User-Agent: Mozilla''],
       StrList [''Host: a.example'', ''User-Agent: X''],
       StrDict [(''Host'', ''a.example''), (''User-Agent'', ''X'')]]) \<and>
   prefix example_store
     (example_store @
      [RuleList [0],
       StrDict [(''Host'', ''a.example''), (''User-Agent'', ''Mozilla'')],
       StrList [''Host: a.example'', ''User-Agent: Mozilla''],
       StrList [''Host: a.example'', ''User-Agent: X''],
       StrDict [(''Host'', ''a.example''), (''User-Agent'', ''X'')]]) \<and>
   length example_store \<le> 7"
proof -
  have h: "apply_match_replace_at example_lib 1 ''Request header'' (VRef 2) example_store =
     (Inr (VRef 7),
      example_store @
      [RuleList [0],
       StrDict [(''Host'', ''a.example''), (''User-Agent'', ''Mozilla'')],
       StrList [''Host: a.example'', ''User-Agent: Mozilla''],
       StrList [''Host: a.example'', ''User-Agent: X''],
       StrDict [(''Host'', ''a.example''), (''User-Agent'', ''X'')]])"
    by code_simp
  have "length example_store \<le> 7" by (simp add: example_store_def)
  then show ?thesis using inputs_unchanged[OF h] h by blast
qed

section \<open>Properties of the replayer, the registry and the mediator\<close>

subsection \<open>Auxiliary facts\<close>

lemma lower_control:
  "lower ''X-WAF-Bypass-Repeater'' = ''x-waf-bypass-repeater''"
  "lower ''X-Antigravity-Override'' = ''x-antigravity-override''"
  by (simp_all add: lower_def lower_char_def)



lemma map_of_dict_set_same: "map_of (dict_set d k v) k = Some v"
  by (induction d) auto

lemma map_of_park: "map_of (pending_items (park st i kind data)) i =
   Some \<lparr>item_kind = kind, item_data = data, item_action = None, item_modified = None,
         event_set = False\<rparr>"
  by (simp add: park_def map_of_dict_set_same)

lemma forward_parked:
  "map_of (pending_items (snd (forward_item (park st i kind data) i m))) i =
   Some \<lparr>item_kind = kind, item_data = data, item_action = Some ''forward'',
         item_modified = (if truthy m then Some m else None), event_set = True\<rparr>"
  by (simp add: forward_item_def map_of_park map_of_dict_set_same)

lemma park_and_wait_forward:
  assumes "emit_raises st er = None" and "truthy m"
  shows "park_and_wait st i kind data er [CmdForward i m] ar tr =
           (Next m, emit st data tr, snd (forward_item (park st i kind data) i m))"
  using assms forward_parked[of st i kind data m]
  by (simp add: park_and_wait_def await_event_def run_cmds_def Let_def)

lemma capture_request_forward:
  assumes "intercept_requests st" and "emit_raises st (emit_req E) = None"
    and "cmds_req E = [CmdForward (rq_id data) (PDict ov)]" and "ov \<noteq> []"
  shows "capture_request E st data False m h b =
     (Next (dict_get ov ''method'' m, dict_get ov ''headers'' h, dict_get ov ''body'' b),
      emit st (ReqCapture data) [],
      unpark (snd (forward_item (park st (rq_id data) ''request'' (ReqCapture data)) (rq_id data) (PDict ov))) (rq_id data))"
  using assms by (simp add: capture_request_def park_and_wait_forward)

lemma emit_extends: "\<exists>rest. emit st data tr = tr @ rest"
  by (simp add: emit_def)

lemma park_and_wait_extends:
  "park_and_wait st i kind data er cmds ar tr = (f, tr', st') \<Longrightarrow> \<exists>rest. tr' = tr @ rest"
  by (auto simp: park_and_wait_def Let_def emit_def split: option.splits if_splits)

lemma deliver_response_extends:
  "deliver_response E st data tr = (f, tr', st') \<Longrightarrow> \<exists>rest. tr' = tr @ rest"
  unfolding deliver_response_def Let_def
  by (auto simp: emit_def split: if_splits option.splits prod.splits flow.splits pyval.splits
      dest!: park_and_wait_extends)

lemma response_half_extends:
  "response_half L E st resp tr = (f, tr', st') \<Longrightarrow> \<exists>rest. tr' = tr @ rest"
  unfolding response_half_def
  by (auto split: sum.splits prod.splits dest: deliver_response_extends)

lemma dispatch_fetch_starts:
  "\<exists>f rest. dispatch_fetch E m u h b tr = (f, tr @ RouteFetch m u h b # rest) \<and>
     (\<forall>resp. f = Next resp \<longrightarrow> rest = [])"
  by (auto simp: dispatch_fetch_def abort_after_def Let_def split: sum.splits option.splits)

lemma deliver_response_forward:
  assumes "intercept_responses st" and "emit_raises st (emit_res E) = None"
    and "cmds_res E = [CmdForward (rs_id data) (PDict ov)]" and "ov \<noteq> []"
  shows "\<exists>f st'. deliver_response E st data tr =
     (f, emit st (ResCapture data) tr @
         [RouteFulfill (dict_get ov ''status'' (PNum (rs_status data)))
            (dict_get ov ''headers'' (PDict (py_headers (rs_headers data))))
            (dict_get ov ''body'' (PStr (rs_body data)))], st')"
  using assms by (simp add: deliver_response_def park_and_wait_forward Let_def)

subsection \<open>What the handler puts on the wire\<close>























subsection \<open>The fallback\<close>

lemma park_and_wait_no_passthrough:
  "park_and_wait st i kind data er cmds ar tr = (f, tr', st') \<Longrightarrow>
   Passthrough \<in> set tr' \<Longrightarrow> Passthrough \<in> set tr"
  by (auto simp: park_and_wait_def Let_def emit_def split: option.splits if_splits)

lemma capture_request_no_passthrough:
  "capture_request E st data byp m h b = (f, tr, st') \<Longrightarrow> Passthrough \<notin> set tr"
  unfolding capture_request_def
  by (auto simp: emit_def split: if_splits option.splits prod.splits flow.splits pyval.splits
      dest!: park_and_wait_no_passthrough)

lemma deliver_response_no_passthrough:
  "deliver_response E st data tr = (f, tr', st') \<Longrightarrow>
   Passthrough \<in> set tr' \<Longrightarrow> Passthrough \<in> set tr"
  unfolding deliver_response_def Let_def
  by (auto simp: emit_def split: if_splits option.splits prod.splits flow.splits pyval.splits
      dest!: park_and_wait_no_passthrough)

lemma response_half_no_passthrough:
  "response_half L E st resp tr = (f, tr', st') \<Longrightarrow>
   Passthrough \<in> set tr' \<Longrightarrow> Passthrough \<in> set tr"
  unfolding response_half_def
  by (auto split: sum.splits prod.splits dest: deliver_response_no_passthrough)

lemma dispatch_bypass_no_passthrough:
  "Passthrough \<in> set (snd (dispatch_bypass E m u h b tr)) \<Longrightarrow> Passthrough \<in> set tr"
  by (auto simp: dispatch_bypass_def abort_after_def Let_def split: sum.splits option.splits)

lemma dispatch_fetch_no_passthrough:
  "Passthrough \<in> set (snd (dispatch_fetch E m u h b tr)) \<Longrightarrow> Passthrough \<in> set tr"
  by (auto simp: dispatch_fetch_def abort_after_def Let_def split: sum.splits option.splits)

lemma route_body_no_passthrough: "Passthrough \<notin> set (fst (snd (route_body L E st rq)))"
proof
  assume a: "Passthrough \<in> set (fst (snd (route_body L E st rq)))"
  show False
  proof (cases "rewrite_request L st rq")
    case (Inl e)
    then show ?thesis using a by (simp add: route_body_def)
  next
    case (Inr r)
    obtain m u hs b where r: "r = (m, u, hs, b)" by (cases r)
    show ?thesis
    proof (cases "channel_headers L hs")
      case (Inl e)
      then show ?thesis using a Inr r by (simp add: route_body_def)
    next
      case (Inr c)
      obtain byp merged where c: "c = (byp, merged)" by (cases c)
      let ?data = "\<lparr>rq_id = req_id E, rq_method = m, rq_url = u, rq_headers = hs, rq_body = b,
                 rq_resourceType = resource_type rq, rq_timestamp = now_req E,
                 rq_pending = intercept_requests st\<rparr>"
      obtain f tr st1 where cap: "capture_request E st ?data byp (PStr m) (PDict merged) (py_body b) = (f, tr, st1)"
        by (cases "capture_request E st ?data byp (PStr m) (PDict merged) (py_body b)") auto
      have nt: "Passthrough \<notin> set tr" using capture_request_no_passthrough[OF cap] .
      show ?thesis
      proof (cases f)
        case (Next x)
        obtain m' h' b' where x: "x = (m', h', b')" by (cases x)
        show ?thesis
        proof (cases byp)
          case True
          then show ?thesis
            using a \<open>rewrite_request L st rq = Inr r\<close> r Inr c cap Next x nt
              dispatch_bypass_no_passthrough[of E m' u h' b' tr]
            by (auto simp: route_body_def split: prod.splits flow.splits)
        next
          case False
          obtain g tr1 where df: "dispatch_fetch E m' u h' b' tr = (g, tr1)"
            by (cases "dispatch_fetch E m' u h' b' tr") auto
          have n1: "Passthrough \<notin> set tr1"
            using dispatch_fetch_no_passthrough[of E m' u h' b' tr] df nt by auto
          show ?thesis
          proof (cases g)
            case (Next resp)
            obtain q tr2 st2 where rh: "response_half L E (run_cmds st1 (cmds_net E)) resp tr1 = (q, tr2, st2)"
              by (cases "response_half L E (run_cmds st1 (cmds_net E)) resp tr1") auto
            have "Passthrough \<notin> set tr2" using response_half_no_passthrough[OF rh] n1 by blast
            then show ?thesis
              using a \<open>rewrite_request L st rq = Inr r\<close> r Inr c cap \<open>f = flow.Next x\<close> x False df Next rh
              by (simp add: route_body_def)
          qed (use a \<open>rewrite_request L st rq = Inr r\<close> r Inr c cap \<open>f = flow.Next x\<close> x False df n1
               in \<open>simp_all add: route_body_def\<close>)
        qed
      qed (use a \<open>rewrite_request L st rq = Inr r\<close> r Inr c cap nt in \<open>simp_all add: route_body_def\<close>)
    qed
  qed
qed

subsection \<open>The pending mark of the request event\<close>

text \<open>Whenever the request half gets as far as the capture, the event of the request is
  the first thing the handler does, and its pending mark is \<^verbatim>\<open>intercept_requests\<close>, whether or
  not the request is in bypass mode; in bypass mode nothing is parked.\<close>

lemma park_and_wait_starts:
  "\<exists>rest. fst (snd (park_and_wait st i kind data er cmds ar tr)) = emit st data tr @ rest"
  by (auto simp: park_and_wait_def Let_def split: option.splits)

lemma capture_request_starts:
  "\<exists>rest. fst (snd (capture_request E st data byp m h b)) = emit st (ReqCapture data) [] @ rest"
proof (cases "intercept_requests st \<and> \<not> byp")
  case True
  obtain f tr st' where pw: "park_and_wait st (rq_id data) ''request'' (ReqCapture data)
      (emit_req E) (cmds_req E) (abort_r E) [] = (f, tr, st')"
    by (cases "park_and_wait st (rq_id data) ''request'' (ReqCapture data)
      (emit_req E) (cmds_req E) (abort_r E) []") auto
  obtain rest where "tr = emit st (ReqCapture data) [] @ rest"
    using park_and_wait_starts[of st "rq_id data" "''request''" "ReqCapture data" "emit_req E"
        "cmds_req E" "abort_r E" "[]"] pw by auto
  then show ?thesis using True pw
    by (cases f) (auto simp: capture_request_def split: pyval.splits)
next
  case False
  then show ?thesis by (auto simp: capture_request_def split: option.splits)
qed

lemma dispatch_bypass_extends: "\<exists>rest. snd (dispatch_bypass E m u h b tr) = tr @ rest"
  by (auto simp: dispatch_bypass_def abort_after_def Let_def split: sum.splits option.splits)

lemma dispatch_fetch_extends: "\<exists>rest. snd (dispatch_fetch E m u h b tr) = tr @ rest"
  by (auto simp: dispatch_fetch_def abort_after_def Let_def split: sum.splits option.splits)

lemma request_capture_pending:
  assumes "rewrite_request L st rq = Inr (m, u, hs, b)"
    and "channel_headers L hs = Inr (byp, merged)"
    and "on_request_captured st"
  shows "\<exists>rest. fst (snd (route_handler L E st rq)) =
           Emit (ReqCapture
             \<lparr>rq_id = req_id E, rq_method = m, rq_url = u, rq_headers = hs, rq_body = b,
              rq_resourceType = resource_type rq, rq_timestamp = now_req E,
              rq_pending = intercept_requests st\<rparr>) # rest"
proof -
  let ?data = "\<lparr>rq_id = req_id E, rq_method = m, rq_url = u, rq_headers = hs, rq_body = b,
                 rq_resourceType = resource_type rq, rq_timestamp = now_req E,
                 rq_pending = intercept_requests st\<rparr>"
  obtain f tr st1 where cap: "capture_request E st ?data byp (PStr m) (PDict merged) (py_body b) = (f, tr, st1)"
    by (cases "capture_request E st ?data byp (PStr m) (PDict merged) (py_body b)") auto
  obtain r0 where tr: "tr = Emit (ReqCapture ?data) # r0"
    using capture_request_starts[of E st ?data byp "PStr m" "PDict merged" "py_body b"] cap assms(3)
    by (auto simp: emit_def)
  have body: "\<exists>g rest st'. route_body L E st rq = (g, Emit (ReqCapture ?data) # rest, st')"
  proof (cases f)
    case (Next x)
    obtain m' h' b' where x: "x = (m', h', b')" by (cases x)
    show ?thesis
    proof (cases byp)
      case True
      obtain g tr1 where d: "dispatch_bypass E m' u h' b' tr = (g, tr1)"
        by (cases "dispatch_bypass E m' u h' b' tr") auto
      obtain r1 where "tr1 = tr @ r1" using dispatch_bypass_extends[of E m' u h' b' tr] d by auto
      then show ?thesis using assms(1,2) cap Next x True d tr
        by (cases g) (auto simp: route_body_def)
    next
      case False
      obtain g tr1 where d: "dispatch_fetch E m' u h' b' tr = (g, tr1)"
        by (cases "dispatch_fetch E m' u h' b' tr") auto
      obtain r1 where t1: "tr1 = tr @ r1" using dispatch_fetch_extends[of E m' u h' b' tr] d by auto
      show ?thesis
      proof (cases g)
        case (Next resp)
        obtain q tr2 st2 where rh: "response_half L E (run_cmds st1 (cmds_net E)) resp tr1 = (q, tr2, st2)"
          by (cases "response_half L E (run_cmds st1 (cmds_net E)) resp tr1") auto
        obtain r2 where "tr2 = tr1 @ r2" using response_half_extends[OF rh] by blast
        then show ?thesis using assms(1,2) cap \<open>f = flow.Next x\<close> x False d Next rh t1 tr
          by (simp add: route_body_def)
      qed (use assms(1,2) cap \<open>f = flow.Next x\<close> x False d t1 tr in \<open>simp_all add: route_body_def\<close>)
    qed
  qed (use assms(1,2) cap tr in \<open>simp_all add: route_body_def\<close>)
  then obtain g rest st' where "route_body L E st rq = (g, Emit (ReqCapture ?data) # rest, st')"
    by blast
  then show ?thesis
    by (cases g) (auto simp: route_handler_def split: option.splits)
qed

lemma bypass_never_parks:
  "capture_request E st data True m h b =
     ((case emit_raises st (emit_req E) of Some e \<Rightarrow> Raise e | None \<Rightarrow> Next (m, h, b)),
      emit st (ReqCapture data) [], st)"
  by (simp add: capture_request_def split: option.splits)

subsection \<open>Claims about the replayer and the registry\<close>

text \<open>
  C7, as amended. In the header partition of \<^verbatim>\<open>replay_request\<close>, a stored header whose
  lower-cased name is one of host, connection, keep-alive, proxy-authenticate,
  proxy-authorization, te, trailer, transfer-encoding, upgrade, cookie, user-agent, referer,
  origin, content-length, date, expect, or starts with \<^verbatim>\<open>sec-\<close>, is not among the names of
  the safe set handed to the in-page fetch call.
\<close>

theorem forbidden_names_excluded:
  assumes "lower k \<in> {''host'', ''connection'', ''keep-alive'', ''proxy-authenticate'',
             ''proxy-authorization'', ''te'', ''trailer'', ''transfer-encoding'', ''upgrade'',
             ''cookie'', ''user-agent'', ''referer'', ''origin'', ''content-length'', ''date'',
             ''expect''} \<or> prefix ''sec-'' (lower k)"
  shows "k \<notin> set (keys (safe_headers hs headers_json))"
proof
  assume "k \<in> set (keys (safe_headers hs headers_json))"
  then have "k = ''X-Antigravity-Override'' \<or> k = ''X-WAF-Bypass-Repeater'' \<or>
      k \<in> set (keys (filter (\<lambda>(k, v). lower k \<notin> set forbidden \<and> \<not> prefix ''sec-'' (lower k)) hs))"
    by (simp add: safe_headers_def keys_dict_set)
  then show False
  proof (elim disjE)
    assume "k = ''X-Antigravity-Override''"
    then show False using assms lower_control(2) by simp
  next
    assume "k = ''X-WAF-Bypass-Repeater''"
    then show False using assms lower_control(1) by simp
  next
    assume "k \<in> set (keys (filter (\<lambda>(k, v). lower k \<notin> set forbidden \<and> \<not> prefix ''sec-'' (lower k)) hs))"
    then have "lower k \<notin> set forbidden \<and> \<not> prefix ''sec-'' (lower k)"
      by (auto simp: keys_def)
    then show False using assms by (simp add: forbidden_def)
  qed
qed

theorem forbidden_names_excluded_witness:
  "(lower ''Cookie'' \<in> {''host'', ''connection'', ''keep-alive'', ''proxy-authenticate'',
             ''proxy-authorization'', ''te'', ''trailer'', ''transfer-encoding'', ''upgrade'',
             ''cookie'', ''user-agent'', ''referer'', ''origin'', ''content-length'', ''date'',
             ''expect''}) \<and>
   ''Cookie'' \<notin> set (keys (safe_headers
      [(''Host'', PStr ''a.example''), (''Cookie'', PStr ''sid=1''), (''X-Foo'', PStr ''bar'')]
      ''{\"Host\": \"a.example\", \"Cookie\": \"sid=1\", \"X-Foo\": \"bar\"}''))"
proof -
  have l: "lower ''Cookie'' = ''cookie''" by (simp add: lower_def lower_char_def)
  show ?thesis
    using forbidden_names_excluded[of "''Cookie''"
       "[(''Host'', PStr ''a.example''), (''Cookie'', PStr ''sid=1''), (''X-Foo'', PStr ''bar'')]"
       "''{\"Host\": \"a.example\", \"Cookie\": \"sid=1\", \"X-Foo\": \"bar\"}''"] l
    by simp
qed

text \<open>C7 as stated fails for a name with the prefix \<^verbatim>\<open>Proxy-\<close> other than the two listed
  ones: \<^verbatim>\<open>Proxy-Connection\<close> stays in the safe set.\<close>

theorem proxy_prefix_counterexample:
  "prefix ''proxy-'' (lower ''Proxy-Connection'') \<and>
   safe_headers [(''Proxy-Connection'', PStr ''keep-alive'')]
     ''{\"Proxy-Connection\": \"keep-alive\"}'' =
   [(''Proxy-Connection'', PStr ''keep-alive''),
    (''X-WAF-Bypass-Repeater'', PStr ''1''),
    (''X-Antigravity-Override'', PStr ''{\"Proxy-Connection\": \"keep-alive\"}'')]"
  by (simp add: safe_headers_def lower_def lower_char_def forbidden_def)




subsection \<open>Claims about the mediator\<close>

text \<open>
  C4 at the failing input: with \<^verbatim>\<open>intercept_requests\<close> on and a request that carries
  \<^verbatim>\<open>X-WAF-Bypass-Repeater\<close>, the capture event is marked pending although nothing is parked
  and the handler goes on to \<^verbatim>\<open>route.continue_\<close> at once.
\<close>

theorem pending_mark_in_bypass:
  "route_handler example_lib example_env (example_manager\<lparr>intercept_requests := True\<rparr>)
     (example_request [(''x-waf-bypass-repeater'', ''1'')]) =
   (Done,
    [Emit (ReqCapture
       \<lparr>rq_id = ''R'', rq_method = ''GET'', rq_url = ''https://a.example/'',
        rq_headers = [(''x-waf-bypass-repeater'', ''1'')], rq_body = None,
        rq_resourceType = ''document'', rq_timestamp = 0, rq_pending = True\<rparr>),
     RouteContinue (PStr ''GET'') ''https://a.example/'' (PDict []) PNone],
    example_manager\<lparr>intercept_requests := True\<rparr>)"
  by code_simp

text \<open>
  C5. A parked request that wakes with the single verdict Forward carrying a non-empty dict
  of overrides is fetched with the override of the method, of the headers and of the body
  where the dict has one (\<open>dict_get\<close> yields the rewritten value otherwise), and nothing but
  capture events precedes the fetch. A parked response that wakes so is fulfilled with the
  override of the status, of the headers and of the body.
\<close>

theorem forward_overrides_used:
  "(rewrite_request L st rq = Inr (m, u, hs, b) \<and>
    channel_headers L hs = Inr (False, merged) \<and>
    intercept_requests st \<and> emit_raises st (emit_req E) = None \<and>
    cmds_req E = [CmdForward (req_id E) (PDict ov)] \<and> ov \<noteq> [] \<longrightarrow>
    (\<exists>pre rest. fst (snd (route_handler L E st rq)) =
       pre @ RouteFetch (dict_get ov ''method'' (PStr m)) u
               (dict_get ov ''headers'' (PDict merged))
               (dict_get ov ''body'' (py_body b)) # rest \<and>
       list_all (\<lambda>a. \<exists>c. a = Emit c) pre)) \<and>
   (rewrite_response L st resp = Inr (res_status, res_headers, res_body) \<and>
    intercept_responses st \<and> emit_raises st (emit_res E) = None \<and>
    cmds_res E = [CmdForward (res_id E) (PDict ov)] \<and> ov \<noteq> [] \<longrightarrow>
    (\<exists>pre. fst (snd (response_half L E st resp tr)) =
       pre @ [RouteFulfill (dict_get ov ''status'' (PNum res_status))
                (dict_get ov ''headers'' (PDict (py_headers res_headers)))
                (dict_get ov ''body'' (PStr res_body))]))"
proof (intro conjI impI)
  assume a: "rewrite_request L st rq = Inr (m, u, hs, b) \<and>
    channel_headers L hs = Inr (False, merged) \<and>
    intercept_requests st \<and> emit_raises st (emit_req E) = None \<and>
    cmds_req E = [CmdForward (req_id E) (PDict ov)] \<and> ov \<noteq> []"
  let ?data = "\<lparr>rq_id = req_id E, rq_method = m, rq_url = u, rq_headers = hs, rq_body = b,
                 rq_resourceType = resource_type rq, rq_timestamp = now_req E,
                 rq_pending = intercept_requests st\<rparr>"
  let ?pre = "emit st (ReqCapture ?data) []"
  let ?M = "dict_get ov ''method'' (PStr m)"
  let ?H = "dict_get ov ''headers'' (PDict merged)"
  let ?B = "dict_get ov ''body'' (py_body b)"
  obtain st1 where cap: "capture_request E st ?data False (PStr m) (PDict merged) (py_body b) =
      (Next (?M, ?H, ?B), ?pre, st1)"
    using a capture_request_forward[of st E ?data ov "PStr m" "PDict merged" "py_body b"] by simp
  obtain f rest where df: "dispatch_fetch E ?M u ?H ?B ?pre = (f, ?pre @ RouteFetch ?M u ?H ?B # rest)"
      and fr: "\<forall>resp. f = Next resp \<longrightarrow> rest = []"
    using dispatch_fetch_starts[of E ?M u ?H ?B ?pre] by blast
  have body: "\<exists>g rest' st'. route_body L E st rq = (g, ?pre @ RouteFetch ?M u ?H ?B # rest', st')"
  proof (cases f)
    case (Next resp)
    obtain g tr' st' where rh: "response_half L E (run_cmds st1 (cmds_net E)) resp
        (?pre @ [RouteFetch ?M u ?H ?B]) = (g, tr', st')"
      by (cases "response_half L E (run_cmds st1 (cmds_net E)) resp (?pre @ [RouteFetch ?M u ?H ?B])") auto
    obtain rest' where "tr' = (?pre @ [RouteFetch ?M u ?H ?B]) @ rest'"
      using response_half_extends[OF rh] by blast
    then show ?thesis using a cap df fr Next rh
      by (simp add: route_body_def)
  qed (use a cap df in \<open>simp_all add: route_body_def\<close>)
  then obtain g rest' st' where rb: "route_body L E st rq = (g, ?pre @ RouteFetch ?M u ?H ?B # rest', st')"
    by blast
  have "\<exists>rest. fst (snd (route_handler L E st rq)) = ?pre @ RouteFetch ?M u ?H ?B # rest"
    using rb by (cases g) (auto simp: route_handler_def split: option.splits)
  moreover have "list_all (\<lambda>a. \<exists>c. a = Emit c) ?pre"
    by (simp add: emit_def)
  ultimately show "\<exists>pre rest. fst (snd (route_handler L E st rq)) =
       pre @ RouteFetch ?M u ?H ?B # rest \<and> list_all (\<lambda>a. \<exists>c. a = Emit c) pre"
    by blast
next
  assume a: "rewrite_response L st resp = Inr (res_status, res_headers, res_body) \<and>
    intercept_responses st \<and> emit_raises st (emit_res E) = None \<and>
    cmds_res E = [CmdForward (res_id E) (PDict ov)] \<and> ov \<noteq> []"
  let ?data = "\<lparr>rs_id = res_id E, rs_req_id = req_id E, rs_url = response_url resp,
             rs_status = res_status, rs_headers = res_headers, rs_body = res_body,
             rs_pending = intercept_responses st, rs_timestamp = now_res E\<rparr>"
  show "\<exists>pre. fst (snd (response_half L E st resp tr)) =
       pre @ [RouteFulfill (dict_get ov ''status'' (PNum res_status))
                (dict_get ov ''headers'' (PDict (py_headers res_headers)))
                (dict_get ov ''body'' (PStr res_body))]"
    using a deliver_response_forward[of st E ?data ov tr]
    by (auto simp: response_half_def)
qed

theorem forward_overrides_used_witness:
  "rewrite_request example_lib intercepting (example_request [(''accept'', ''*/*'')]) =
     Inr (''GET'', ''https://a.example/'', [(''accept'', ''*/*'')], None) \<and>
   channel_headers example_lib [(''accept'', ''*/*'')] =
     Inr (False, [(PStr ''accept'', PStr ''*/*'')]) \<and>
   intercept_requests intercepting \<and> emit_raises intercepting (emit_req forward_env) = None \<and>
   cmds_req forward_env =
     [CmdForward (req_id forward_env)
        (PDict [(PStr ''method'', PStr ''POST''), (PStr ''body'', PStr ''hi'')])] \<and>
   rewrite_response example_lib intercepting example_response =
     Inr (200, [(''content-type'', ''text/html'')], ''ok'') \<and>
   intercept_responses intercepting \<and> emit_raises intercepting (emit_res forward_env) = None \<and>
   cmds_res forward_env = [CmdForward (res_id forward_env) (PDict [(PStr ''status'', PNum 418)])] \<and>
   fst (snd (route_handler example_lib forward_env intercepting
               (example_request [(''accept'', ''*/*'')]))) =
     [Emit (ReqCapture
        \<lparr>rq_id = ''R'', rq_method = ''GET'', rq_url = ''https://a.example/'',
         rq_headers = [(''accept'', ''*/*'')], rq_body = None, rq_resourceType = ''document'',
         rq_timestamp = 0, rq_pending = True\<rparr>),
      RouteFetch (PStr ''POST'') ''https://a.example/'' (PDict [(PStr ''accept'', PStr ''*/*'')])
        (PStr ''hi''),
      Emit (ResCapture
        \<lparr>rs_id = ''S'', rs_req_id = ''R'', rs_url = ''https://a.example/'', rs_status = 200,
         rs_headers = [(''content-type'', ''text/html'')], rs_body = ''ok'', rs_pending = True,
         rs_timestamp = 1\<rparr>),
      RouteFulfill (PNum 418) (PDict [(PStr ''content-type'', PStr ''text/html'')]) (PStr ''ok'')]"
proof -
  have h1: "rewrite_request example_lib intercepting (example_request [(''accept'', ''*/*'')]) =
     Inr (''GET'', ''https://a.example/'', [(''accept'', ''*/*'')], None)"
    by code_simp
  have h2: "channel_headers example_lib [(''accept'', ''*/*'')] =
     Inr (False, [(PStr ''accept'', PStr ''*/*'')])"
    by code_simp
  have h3: "intercept_requests intercepting \<and> emit_raises intercepting (emit_req forward_env) = None"
    by code_simp
  have h4: "cmds_req forward_env =
     [CmdForward (req_id forward_env)
        (PDict [(PStr ''method'', PStr ''POST''), (PStr ''body'', PStr ''hi'')])]"
    by code_simp
  have h5: "rewrite_response example_lib intercepting example_response =
     Inr (200, [(''content-type'', ''text/html'')], ''ok'')"
    by code_simp
  have h6: "intercept_responses intercepting \<and> emit_raises intercepting (emit_res forward_env) = None"
    by code_simp
  have h7: "cmds_res forward_env = [CmdForward (res_id forward_env) (PDict [(PStr ''status'', PNum 418)])]"
    by code_simp
  have h8: "fst (snd (route_handler example_lib forward_env intercepting
               (example_request [(''accept'', ''*/*'')]))) =
     [Emit (ReqCapture
        \<lparr>rq_id = ''R'', rq_method = ''GET'', rq_url = ''https://a.example/'',
         rq_headers = [(''accept'', ''*/*'')], rq_body = None, rq_resourceType = ''document'',
         rq_timestamp = 0, rq_pending = True\<rparr>),
      RouteFetch (PStr ''POST'') ''https://a.example/'' (PDict [(PStr ''accept'', PStr ''*/*'')])
        (PStr ''hi''),
      Emit (ResCapture
        \<lparr>rs_id = ''S'', rs_req_id = ''R'', rs_url = ''https://a.example/'', rs_status = 200,
         rs_headers = [(''content-type'', ''text/html'')], rs_body = ''ok'', rs_pending = True,
         rs_timestamp = 1\<rparr>),
      RouteFulfill (PNum 418) (PDict [(PStr ''content-type'', PStr ''text/html'')]) (PStr ''ok'')]"
    by code_simp
  note inst = forward_overrides_used[where L = example_lib and st = intercepting
      and rq = "example_request [(''accept'', ''*/*'')]" and E = forward_env
      and m = "''GET''" and u = "''https://a.example/''" and hs = "[(''accept'', ''*/*'')]"
      and b = None and merged = "[(PStr ''accept'', PStr ''*/*'')]"
      and ov = "[(PStr ''method'', PStr ''POST''), (PStr ''body'', PStr ''hi'')]"]
  from inst h1 h2 h3 h4 h5 h6 h7 h8 show ?thesis by blast
qed




text \<open>
  C2, as amended. When an exception leaves the \<^verbatim>\<open>try\<close> block, the handler calls
  \<^verbatim>\<open>route.continue_()\<close> without arguments once, as its last action, whether or not that call
  succeeds, and it does so in no other case. A failure of \<^verbatim>\<open>route.fetch\<close> or of
  \<^verbatim>\<open>route.continue_\<close> in the dispatch is no such exception: it is caught where it arises and
  followed by \<^verbatim>\<open>route.abort()\<close>.
\<close>

theorem exception_falls_back_to_passthrough:
  "(route_body L E st rq = (Raise e, tr, st') \<longrightarrow>
      route_handler L E st rq = (Done, tr @ [Passthrough], st') \<and> Passthrough \<notin> set tr) \<and>
   (Passthrough \<in> set (fst (snd (route_handler L E st rq))) \<longrightarrow>
      (\<exists>e' tr' st''. route_body L E st rq = (Raise e', tr', st''))) \<and>
   (fetch_r E = Inl ef \<and> abort_r E = None \<longrightarrow>
      dispatch_fetch E m u h b tr0 = (Return, tr0 @ [RouteFetch m u h b, RouteAbort])) \<and>
   (continue_r E = Some ec \<and> abort_r E = None \<and> continue_headers d = Inr d' \<longrightarrow>
      dispatch_bypass E m u (PDict d) b tr0 =
        (Return, tr0 @ [RouteContinue m u (PDict d') b, RouteAbort]))"
proof -
  have 1: "route_handler L E st rq = (Done, tr @ [Passthrough], st') \<and> Passthrough \<notin> set tr"
    if a: "route_body L E st rq = (Raise e, tr, st')"
  proof -
    have "Passthrough \<notin> set tr" using route_body_no_passthrough[of L E st rq] a by simp
    then show ?thesis using a by (simp add: route_handler_def split: option.splits)
  qed
  have 2: "\<exists>e' tr' st''. route_body L E st rq = (Raise e', tr', st'')"
    if a: "Passthrough \<in> set (fst (snd (route_handler L E st rq)))"
  proof -
    obtain f tr1 st1 where rb: "route_body L E st rq = (f, tr1, st1)"
      by (cases "route_body L E st rq") auto
    have "Passthrough \<notin> set tr1" using route_body_no_passthrough[of L E st rq] rb by simp
    then show ?thesis
      using a rb by (cases f) (auto simp: route_handler_def split: option.splits)
  qed
  have 3: "dispatch_fetch E m u h b tr0 = (Return, tr0 @ [RouteFetch m u h b, RouteAbort])"
    if "fetch_r E = Inl ef \<and> abort_r E = None"
    using that by (simp add: dispatch_fetch_def abort_after_def)
  have 4: "dispatch_bypass E m u (PDict d) b tr0 =
        (Return, tr0 @ [RouteContinue m u (PDict d') b, RouteAbort])"
    if "continue_r E = Some ec \<and> abort_r E = None \<and> continue_headers d = Inr d'"
    using that by (simp add: dispatch_bypass_def abort_after_def)
  show ?thesis using 1 2 3 4 by blast
qed

theorem exception_falls_back_to_passthrough_witness:
  "route_body example_lib failing_env example_manager
     (example_request [(''x-antigravity-override'', ''5'')]) =
     (Raise TypeError, [], example_manager) \<and>
   route_handler example_lib failing_env example_manager
     (example_request [(''x-antigravity-override'', ''5'')]) =
     (Done, [] @ [Passthrough], example_manager) \<and>
   Passthrough \<in> set (fst (snd (route_handler example_lib failing_env example_manager
     (example_request [(''x-antigravity-override'', ''5'')])))) \<and>
   fetch_r failing_env = Inl OtherError \<and> abort_r failing_env = None \<and>
   dispatch_fetch failing_env (PStr ''GET'') ''https://a.example/'' (PDict []) PNone [] =
     (Return, [] @ [RouteFetch (PStr ''GET'') ''https://a.example/'' (PDict []) PNone, RouteAbort]) \<and>
   continue_r failing_env = Some OtherError \<and> continue_headers [] = Inr [] \<and>
   dispatch_bypass failing_env (PStr ''GET'') ''https://a.example/'' (PDict []) PNone [] =
     (Return, [] @ [RouteContinue (PStr ''GET'') ''https://a.example/'' (PDict []) PNone,
                    RouteAbort])"
proof -
  have h1: "route_body example_lib failing_env example_manager
     (example_request [(''x-antigravity-override'', ''5'')]) =
     (Raise TypeError, [], example_manager)"
    by code_simp
  have h2: "fetch_r failing_env = Inl OtherError \<and> abort_r failing_env = None"
    by code_simp
  have h3: "continue_r failing_env = Some OtherError \<and> abort_r failing_env = None \<and>
      continue_headers [] = Inr []"
    by code_simp
  note inst = exception_falls_back_to_passthrough[where L = example_lib and E = failing_env
      and st = example_manager and rq = "example_request [(''x-antigravity-override'', ''5'')]"
      and e = TypeError and ef = OtherError and ec = OtherError and tr = "[]" and st' = example_manager
      and m = "PStr ''GET''" and u = "''https://a.example/''" and h = "PDict []" and b = PNone
      and ?tr0.0 = "[]" and d = "[]" and d' = "[]"]
  have 1: "route_handler example_lib failing_env example_manager
     (example_request [(''x-antigravity-override'', ''5'')]) = (Done, [] @ [Passthrough], example_manager)"
    using inst h1 by blast
  then have 2: "Passthrough \<in> set (fst (snd (route_handler example_lib failing_env example_manager
     (example_request [(''x-antigravity-override'', ''5'')]))))"
    by simp
  have 3: "dispatch_fetch failing_env (PStr ''GET'') ''https://a.example/'' (PDict []) PNone [] =
     (Return, [] @ [RouteFetch (PStr ''GET'') ''https://a.example/'' (PDict []) PNone, RouteAbort])"
    using inst h2 by blast
  have 4: "dispatch_bypass failing_env (PStr ''GET'') ''https://a.example/'' (PDict []) PNone [] =
     (Return, [] @ [RouteContinue (PStr ''GET'') ''https://a.example/'' (PDict []) PNone,
                    RouteAbort])"
    using inst h3 by blast
  show ?thesis using h1 h2 h3 1 2 3 4 by blast
qed

text \<open>C2 as stated fails twice: a failed fetch (step 5) is aborted and not passed through,
  and after a passthrough that fails nothing is aborted.\<close>

theorem passthrough_counterexample:
  "route_handler example_lib (example_env\<lparr>fetch_r := Inl OtherError\<rparr>) example_manager
     (example_request [(''accept'', ''*/*'')]) =
     (Done,
      [Emit (ReqCapture
         \<lparr>rq_id = ''R'', rq_method = ''GET'', rq_url = ''https://a.example/'',
          rq_headers = [(''accept'', ''*/*'')], rq_body = None, rq_resourceType = ''document'',
          rq_timestamp = 0, rq_pending = False\<rparr>),
       RouteFetch (PStr ''GET'') ''https://a.example/'' (PDict [(PStr ''accept'', PStr ''*/*'')])
         PNone,
       RouteAbort],
      example_manager) \<and>
   route_handler example_lib (example_env\<lparr>fallback_r := Some OtherError\<rparr>) example_manager
     (example_request [(''x-antigravity-override'', ''5'')]) =
     (Done, [Passthrough], example_manager)"
  by code_simp

end
